theory Spec2Isabelle
  imports Main
begin

section \<open>The layer \<open>FeatureSparseToDense\<close> of \<open>caffe2/python/layers/feature_sparse_to_dense.py\<close>\<close>

subsection \<open>Data\<close>

text \<open>A blob reference is identified by its name.\<close>

type_synonym blob = string

text \<open>
  The \<open>FeatureSpec\<close> tuple, as the constructor's docstring gives it: a type tag (any
  Python string), the feature names and the feature ids.
\<close>

record feature_spec =
  feature_type :: string
  feature_names :: "string list"
  feature_ids :: "int list"

type_synonym input_specs = "(string \<times> feature_spec) list"

text \<open>
  The exceptions that the constructor and the two methods can raise, with their messages.
  \<open>AssertionError\<close> is the error of an \<open>assert\<close> that gives no message, as the one of lines
  47 and 48; \<open>AssertionErrorMsg\<close> is the error of an \<open>assert\<close> with a message, as those of
  \<open>schema.Struct\<close>.
\<close>

datatype error =
    AssertionError
  | AssertionErrorMsg string
  | TypeError string
  | ValueError string
  | KeyError string
  | AttributeError string

datatype np_dtype = float32 | int32 | int64

text \<open>
  Modelled from the spec: the classes \<open>schema.Scalar\<close> and \<open>schema.Struct\<close> belong to the
  framework's schema module, which is not part of this source file; the spec speaks of
  them only as "in-memory schema structs". A scalar records its element type, its
  shape, its blob and the metadata attached to it (here the feature specs, if any); a
  struct is an ordered list of named fields. \<open>Scalar(np.int64, b)\<close>, with no shape, has
  the empty shape. What the constructor \<open>schema.Struct(...)\<close> and the lookup \<open>s[name]\<close> do
  with the names is modelled below, after the behaviour of the framework: a name is a
  path whose steps are separated by \<open>:\<close>.
\<close>

datatype field =
    Scalar np_dtype "nat list" blob "feature_spec option"
  | Struct "(string \<times> field) list"

type_synonym struct = "(string \<times> field) list"

text \<open>
  The steps of a nested name: \<open>'a:b:c'\<close> has the steps \<open>a\<close>, \<open>b\<close>, \<open>c\<close>; a name without
  separator is its own single step (the framework splits off the first step with
  \<open>name.split(':', 1)\<close> and goes on with the rest).
\<close>

fun segments :: "string \<Rightarrow> string list" where
  "segments [] = [[]]"
| "segments (c # cs) =
     (if c = CHR '':'' then [] # segments cs
      else (case segments cs of [] \<Rightarrow> [[c]] | s # ss \<Rightarrow> (c # s) # ss))"

text \<open>
  The field at a path: the first step is looked up among the fields, the rest inside
  the struct found; there is nothing below a scalar.
\<close>

fun lookup :: "struct \<Rightarrow> string list \<Rightarrow> field option" where
  "lookup s [] = None"
| "lookup s [n] = map_of s n"
| "lookup s (n # ns) =
     (case map_of s n of
        Some (Struct c) \<Rightarrow> lookup c ns
      | _ \<Rightarrow> None)"

text \<open>\<open>s[name]\<close> on a struct: the field at the nested name, \<open>KeyError\<close> if there is none.\<close>

definition getitem :: "struct \<Rightarrow> string \<Rightarrow> error + field" where
  "getitem s name =
     (case lookup s (segments name) of None \<Rightarrow> Inl (KeyError name) | Some f \<Rightarrow> Inr f)"

text \<open>\<open>f.name\<close>: the child of a struct; a scalar has no children.\<close>

fun getattr :: "field \<Rightarrow> string \<Rightarrow> error + field" where
  "getattr (Struct s) name =
     (case map_of s name of None \<Rightarrow> Inl (AttributeError name) | Some f \<Rightarrow> Inr f)"
| "getattr (Scalar t sh b m) name = Inl (AttributeError name)"

text \<open>\<open>f()\<close>: the blob of a scalar; a struct is not callable.\<close>

fun call :: "field \<Rightarrow> error + blob" where
  "call (Scalar t sh b m) = Inr b"
| "call (Struct s) = Inl (TypeError ''Struct is not callable'')"

text \<open>\<open>field_blobs()\<close> and \<open>field_types()\<close>: the blobs and the types of all scalars, in order.\<close>

fun field_blobs :: "field \<Rightarrow> blob list"
  and struct_blobs :: "(string \<times> field) list \<Rightarrow> blob list" where
  "field_blobs (Scalar t sh b m) = [b]"
| "field_blobs (Struct s) = struct_blobs s"
| "struct_blobs [] = []"
| "struct_blobs (nf # s) = field_blobs (snd nf) @ struct_blobs s"

fun field_types :: "field \<Rightarrow> (np_dtype \<times> nat list) list"
  and struct_types :: "(string \<times> field) list \<Rightarrow> (np_dtype \<times> nat list) list" where
  "field_types (Scalar t sh b m) = [(t, sh)]"
| "field_types (Struct s) = struct_types s"
| "struct_types [] = []"
| "struct_types (nf # s) = field_types (snd nf) @ struct_types s"

text \<open>
  \<open>schema.attach_metadata_to_scalars(f, schema.Metadata(feature_specs=fs))\<close>: every scalar
  of \<open>f\<close> gets the metadata.
\<close>

fun attach_metadata_to_scalars :: "field \<Rightarrow> feature_spec \<Rightarrow> field"
  and attach_metadata_to_fields :: "(string \<times> field) list \<Rightarrow> feature_spec \<Rightarrow> (string \<times> field) list" where
  "attach_metadata_to_scalars (Scalar t sh b m) fs = Scalar t sh b (Some fs)"
| "attach_metadata_to_scalars (Struct s) fs = Struct (attach_metadata_to_fields s fs)"
| "attach_metadata_to_fields [] fs = []"
| "attach_metadata_to_fields (nf # s) fs =
     (fst nf, attach_metadata_to_scalars (snd nf) fs) # attach_metadata_to_fields s fs"

text \<open>\<open>update_field s name g\<close> replaces the field \<open>f\<close> stored under \<open>name\<close> by \<open>g f\<close>.\<close>

fun update_field :: "struct \<Rightarrow> string \<Rightarrow> (field \<Rightarrow> field) \<Rightarrow> struct" where
  "update_field [] name g = []"
| "update_field ((n, f) # s) name g =
     (if n = name then (n, g f) # s else (n, f) # update_field s name g)"

text \<open>
  The objects reached through \<open>self.output_schema[field]\<close> are updated in place; in the
  model the field found at that path is replaced by the updated one.
\<close>

fun update_path :: "struct \<Rightarrow> string list \<Rightarrow> (field \<Rightarrow> field) \<Rightarrow> struct" where
  "update_path s [] g = s"
| "update_path s [n] g = update_field s n g"
| "update_path s (n # ns) g =
     update_field s n (\<lambda>f. case f of Struct c \<Rightarrow> Struct (update_path c ns g) | _ \<Rightarrow> f)"

subsection \<open>The constructor of \<open>schema.Struct\<close>\<close>

text \<open>
  Modelled from the spec: \<open>schema.Struct(*fields)\<close> is code of the framework that is not
  part of this source file, and the spec does not describe it. The model follows the
  behaviour of the framework's constructor. It first asserts, field by field, that the
  name is not empty and is not \<open>lengths\<close>. Then it adds the fields one by one: a name
  with the separator \<open>:\<close> is turned into its first step and a chain of one-field structs
  for the other steps (each built by the same constructor, so each with the two
  assertions); a name that is new is appended; a name that is there already is an error
  unless both fields are structs, which are then merged with \<open>+\<close>.
\<close>

fun check_names :: "struct \<Rightarrow> error option" where
  "check_names [] = None"
| "check_names ((n, f) # s) =
     (if n = [] then Some (AssertionErrorMsg ''Field names cannot be empty'')
      else if n = ''lengths''
        then Some (AssertionErrorMsg ''Struct cannot contain a field named `lengths`.'')
      else check_names s)"

text \<open>\<open>Struct((n, f))\<close> and the chain of such structs along the steps of a path.\<close>

definition struct1 :: "string \<Rightarrow> field \<Rightarrow> error + field" where
  "struct1 n f = (case check_names [(n, f)] of Some e \<Rightarrow> Inl e | None \<Rightarrow> Inr (Struct [(n, f)]))"

fun chain :: "string list \<Rightarrow> field \<Rightarrow> error + field" where
  "chain [] f = Inr f"
| "chain (n # ns) f = (case chain ns f of Inl e \<Rightarrow> Inl e | Inr g \<Rightarrow> struct1 n g)"

definition nested :: "string \<Rightarrow> field \<Rightarrow> error + (string \<times> field)" where
  "nested name f =
     (case segments name of
        [] \<Rightarrow> Inr (name, f)
      | n # ns \<Rightarrow> (case chain ns f of Inl e \<Rightarrow> Inl e | Inr g \<Rightarrow> Inr (n, g)))"

text \<open>
  \<open>left + right\<close>: the fields of the right struct are added to those of the left one; a
  name that both have is merged in turn, which only two structs allow. The result is
  built by the constructor again: the names are single steps and differ from each
  other, so that only its assertions remain.
\<close>

fun merge_field :: "field \<Rightarrow> field \<Rightarrow> error + field"
  and merge_children :: "struct \<Rightarrow> struct \<Rightarrow> error + struct" where
  "merge_field (Struct l) (Struct r) =
     (case merge_children l r of
        Inl e \<Rightarrow> Inl e
      | Inr m \<Rightarrow> (case check_names m of Some e \<Rightarrow> Inl e | None \<Rightarrow> Inr (Struct m)))"
| "merge_field (Struct l) (Scalar t sh b m) = Inl (TypeError ''unsupported operand type(s) for +'')"
| "merge_field (Scalar t sh b m) right = Inl (TypeError ''unsupported operand type(s) for +'')"
| "merge_children l [] = Inr l"
| "merge_children l (nf # r) =
     (case map_of l (fst nf) of
        None \<Rightarrow> merge_children (l @ [nf]) r
      | Some left \<Rightarrow>
          (case merge_field left (snd nf) of
             Inl e \<Rightarrow> Inl e
           | Inr m \<Rightarrow> merge_children (update_field l (fst nf) (\<lambda>f. m)) r))"

text \<open>The second loop of the constructor: \<open>added\<close> holds the fields added so far.\<close>

fun is_struct :: "field \<Rightarrow> bool" where
  "is_struct (Struct s) = True"
| "is_struct (Scalar t sh b m) = False"

fun add_fields :: "struct \<Rightarrow> struct \<Rightarrow> error + struct" where
  "add_fields [] added = Inr added"
| "add_fields ((name, f) # rest) added =
     (case nested name f of
        Inl e \<Rightarrow> Inl e
      | Inr (n, g) \<Rightarrow>
          (case map_of added n of
             None \<Rightarrow> add_fields rest (added @ [(n, g)])
           | Some old \<Rightarrow>
               if \<not> is_struct g \<or> \<not> is_struct old
                 then Inl (ValueError (''Duplicate field name: '' @ n))
               else (case merge_field old g of
                       Inl e \<Rightarrow> Inl e
                     | Inr m \<Rightarrow> add_fields rest (update_field added n (\<lambda>f. m)))))"

definition new_struct :: "struct \<Rightarrow> error + struct" where
  "new_struct fs =
     (case check_names fs of Some e \<Rightarrow> Inl e | None \<Rightarrow> add_fields fs [])"

text \<open>
  The model helper: only its table \<open>global_constants\<close> is read. The input record is
  a schema of the framework; the layer only reads blobs from it, through the seven
  accessor paths below, so it is taken as the table of those blobs.
\<close>

record model_helper =
  global_constants :: "string \<rightharpoonup> blob"

datatype record_path =
    Keys | Values | Lengths
  | ValuesLengths | ValuesItems | ValuesKeys | ValuesValues

type_synonym input_record = "string \<Rightarrow> record_path \<Rightarrow> blob"

record layer =
  input_record :: input_record
  input_specs :: input_specs
  output_schema :: struct
  zero :: blob
  zero_range :: blob

subsection \<open>The constructor\<close>

definition known_types :: "string list" where
  "known_types = [''FLOAT'', ''ID_LIST'']"

text \<open>
  One round of the first loop of \<open>__init__\<close> (lines 46 to 110). The parameter \<open>gnbr\<close>
  is \<open>self.get_next_blob_reference\<close>, a method of the base class: it returns a blob
  reference and changes the naming state \<open>st\<close> of the model's net.
\<close>

definition output_for ::
  "(string \<Rightarrow> 's \<Rightarrow> blob \<times> 's) \<Rightarrow> string \<Rightarrow> feature_spec \<Rightarrow> 's
     \<Rightarrow> error + ((string \<times> field) \<times> 's)" where
  "output_for gnbr field fs st =
     (if length (feature_names fs) \<noteq> length (feature_ids fs) then Inl AssertionError
      else if feature_type fs = ''FLOAT'' then
        (let (b, st1) = gnbr (field @ ''_output'') st
         in Inr ((field, Scalar float32 [length (feature_ids fs)] b None), st1))
      else if feature_type fs = ''ID_LIST'' then
        (let (r, st1) = gnbr (field @ ''_ranges'') st;
             (v, st2) = gnbr (field @ ''_values'') st1
         in Inr ((field,
                  Struct [(''ranges'', Scalar int32 [length (feature_ids fs), 2] r None),
                          (''values'', Scalar int64 [] v None)]), st2))
      else if feature_type fs = ''ID_SCORE_LIST'' then
        (let (r, st1) = gnbr (field @ ''_ranges'') st;
             (i, st2) = gnbr (field @ ''_ids'') st1;
             (s, st3) = gnbr (field @ ''_scores'') st2
         in Inr ((field,
                  Struct [(''ranges'', Scalar int32 [length (feature_ids fs), 2] r None),
                          (''ids'', Scalar int64 [] i None),
                          (''scores'', Scalar float32 [] s None)]), st3))
      else Inl (TypeError (''Unsupported input type: '' @ feature_type fs)))"

text \<open>The loop itself: \<open>outputs\<close> is the list that the source appends to.\<close>

fun outputs_loop ::
  "(string \<Rightarrow> 's \<Rightarrow> blob \<times> 's) \<Rightarrow> input_specs \<Rightarrow> struct \<Rightarrow> 's \<Rightarrow> error + (struct \<times> 's)" where
  "outputs_loop gnbr [] outputs st = Inr (outputs, st)"
| "outputs_loop gnbr ((field, fs) # rest) outputs st =
     (case output_for gnbr field fs st of
        Inl e \<Rightarrow> Inl e
      | Inr (out, st1) \<Rightarrow> outputs_loop gnbr rest (outputs @ [out]) st1)"

text \<open>The second loop of \<open>__init__\<close> (lines 125 to 130).\<close>

fun metadata_loop :: "input_specs \<Rightarrow> struct \<Rightarrow> error + struct" where
  "metadata_loop [] schema = Inr schema"
| "metadata_loop ((field, fs) # rest) schema =
     (case getitem schema field of
        Inl e \<Rightarrow> Inl e
      | Inr f \<Rightarrow>
          metadata_loop rest
            (update_path schema (segments field) (\<lambda>f. attach_metadata_to_scalars f fs)))"

definition global_constant :: "model_helper \<Rightarrow> string \<Rightarrow> error + blob" where
  "global_constant model name =
     (case global_constants model name of None \<Rightarrow> Inl (KeyError name) | Some b \<Rightarrow> Inr b)"

text \<open>
  \<open>__init__\<close>: the layer built, with the naming state left behind, or the exception.
  Line 116 builds the output schema from the list \<open>outputs\<close> with \<open>schema.Struct\<close>.
\<close>

definition init ::
  "(string \<Rightarrow> 's \<Rightarrow> blob \<times> 's) \<Rightarrow> model_helper \<Rightarrow> input_record \<Rightarrow> input_specs \<Rightarrow> 's
     \<Rightarrow> error + (layer \<times> 's)" where
  "init gnbr model inp specs st =
     (case outputs_loop gnbr specs [] st of
        Inl e \<Rightarrow> Inl e
      | Inr (outputs, st1) \<Rightarrow>
          (case new_struct outputs of
             Inl e \<Rightarrow> Inl e
           | Inr schema0 \<Rightarrow>
               (case metadata_loop specs schema0 of
                  Inl e \<Rightarrow> Inl e
                | Inr schema \<Rightarrow>
                    (case global_constant model ''ZERO'' of
                       Inl e \<Rightarrow> Inl e
                     | Inr z \<Rightarrow>
                         (case global_constant model ''ZERO_RANGE'' of
                            Inl e \<Rightarrow> Inl e
                          | Inr zr \<Rightarrow>
                              Inr (\<lparr>input_record = inp, input_specs = specs,
                                    output_schema = schema, zero = z, zero_range = zr\<rparr>,
                                   st1))))))"

subsection \<open>\<open>add_ops\<close>\<close>

text \<open>
  The operators that \<open>add_ops\<close> adds to a net: \<open>SparseToDenseMask\<close> with its inputs, its
  outputs and its \<open>mask\<close> argument, \<open>LengthsToRanges\<close> and \<open>Alias\<close> with their input and
  their output. The net is the list of the operators added so far, with the state of
  its blob names; \<open>nsb\<close> below is \<open>net.NextScopedBlob\<close>. A call that adds an operator
  with one output returns that output's blob.
\<close>

datatype operator =
    SparseToDenseMask "blob list" "blob list" "int list"
  | LengthsToRanges blob blob
  | Alias blob blob

record 'n net =
  ops :: "operator list"
  names :: 'n

definition emit :: "operator \<Rightarrow> 'n net \<Rightarrow> 'n net" where
  "emit operator n = n\<lparr>ops := ops n @ [operator]\<rparr>"

text \<open>\<open>self.output_schema[field]()\<close> and \<open>self.output_schema[field].child()\<close>.\<close>

definition output_blob :: "layer \<Rightarrow> string \<Rightarrow> error + blob" where
  "output_blob self field =
     (case getitem (output_schema self) field of Inl e \<Rightarrow> Inl e | Inr f \<Rightarrow> call f)"

definition output_child_blob :: "layer \<Rightarrow> string \<Rightarrow> string \<Rightarrow> error + blob" where
  "output_child_blob self field child =
     (case getitem (output_schema self) field of
        Inl e \<Rightarrow> Inl e
      | Inr f \<Rightarrow> (case getattr f child of Inl e \<Rightarrow> Inl e | Inr c \<Rightarrow> call c))"

text \<open>One round of the loop of \<open>add_ops\<close> (lines 137 to 193); there is no \<open>else\<close> branch.\<close>

definition add_ops_for ::
  "(string \<Rightarrow> 'n \<Rightarrow> blob \<times> 'n) \<Rightarrow> layer \<Rightarrow> string \<Rightarrow> feature_spec \<Rightarrow> 'n net
     \<Rightarrow> error + 'n net" where
  "add_ops_for nsb self field fs n =
     (let rec = input_record self field in
      if feature_type fs = ''FLOAT'' then
        (case output_blob self field of
           Inl e \<Rightarrow> Inl e
         | Inr out \<Rightarrow>
             Inr (emit (SparseToDenseMask
                          [rec Keys, rec Values, zero self, rec Lengths]
                          [out] (feature_ids fs)) n))
      else if feature_type fs = ''ID_LIST'' then
        (let (id_list_ranges, nm) = nsb ''id_list_ranges'' (names n);
             n1 = emit (LengthsToRanges (rec ValuesLengths) id_list_ranges) (n\<lparr>names := nm\<rparr>)
         in case output_child_blob self field ''ranges'' of
              Inl e \<Rightarrow> Inl e
            | Inr ranges \<Rightarrow>
                (let n2 = emit (SparseToDenseMask
                                  [rec Keys, id_list_ranges, zero_range self, rec Lengths]
                                  [ranges] (feature_ids fs)) n1
                 in case output_child_blob self field ''values'' of
                      Inl e \<Rightarrow> Inl e
                    | Inr vals \<Rightarrow> Inr (emit (Alias (rec ValuesItems) vals) n2)))
      else if feature_type fs = ''ID_SCORE_LIST'' then
        (let (id_list_ranges, nm) = nsb ''id_score_list_ranges'' (names n);
             n1 = emit (LengthsToRanges (rec ValuesLengths) id_list_ranges) (n\<lparr>names := nm\<rparr>)
         in case output_child_blob self field ''ranges'' of
              Inl e \<Rightarrow> Inl e
            | Inr ranges \<Rightarrow>
                (let n2 = emit (SparseToDenseMask
                                  [rec Keys, id_list_ranges, zero_range self, rec Lengths]
                                  [ranges] (feature_ids fs)) n1
                 in case output_child_blob self field ''ids'' of
                      Inl e \<Rightarrow> Inl e
                    | Inr ids \<Rightarrow>
                        (let n3 = emit (Alias (rec ValuesKeys) ids) n2
                         in case output_child_blob self field ''scores'' of
                              Inl e \<Rightarrow> Inl e
                            | Inr scores \<Rightarrow> Inr (emit (Alias (rec ValuesValues) scores) n3))))
      else Inr n)"

fun add_ops_loop ::
  "(string \<Rightarrow> 'n \<Rightarrow> blob \<times> 'n) \<Rightarrow> layer \<Rightarrow> input_specs \<Rightarrow> 'n net \<Rightarrow> error + 'n net" where
  "add_ops_loop nsb self [] n = Inr n"
| "add_ops_loop nsb self ((field, fs) # rest) n =
     (case add_ops_for nsb self field fs n of
        Inl e \<Rightarrow> Inl e
      | Inr n1 \<Rightarrow> add_ops_loop nsb self rest n1)"

definition add_ops :: "(string \<Rightarrow> 'n \<Rightarrow> blob \<times> 'n) \<Rightarrow> layer \<Rightarrow> 'n net \<Rightarrow> error + 'n net" where
  "add_ops nsb self n = add_ops_loop nsb self (input_specs self) n"

subsection \<open>\<open>get_metadata\<close>\<close>

text \<open>
  The values of the dictionary of a metadata entry: a type tag, a list of names, a
  list of ids, or the number stored under \<open>'cardinality'\<close>.
\<close>

datatype meta_value =
    MType string
  | MNames "string list"
  | MIds "int list"
  | MInt int

type_synonym metadata_entry =
  "(string \<rightharpoonup> meta_value) \<times> blob list \<times> (np_dtype \<times> nat list) list"

text \<open>\<open>metadata[-1][0]['cardinality'] = 1\<close> on a list: \<open>IndexError\<close> cannot occur, the list
  has just been appended to; the empty list is left as it is.\<close>

definition set_cardinality :: "metadata_entry list \<Rightarrow> metadata_entry list" where
  "set_cardinality metadata =
     (if metadata = [] then metadata
      else metadata[length metadata - 1 :=
             (case last metadata of (d, bt) \<Rightarrow> (d(''cardinality'' \<mapsto> MInt 1), bt))])"

fun get_metadata_loop ::
  "layer \<Rightarrow> input_specs \<Rightarrow> metadata_entry list \<Rightarrow> error + metadata_entry list" where
  "get_metadata_loop self [] metadata = Inr metadata"
| "get_metadata_loop self ((field, fs) # rest) metadata =
     (case getitem (output_schema self) field of
        Inl e \<Rightarrow> Inl e
      | Inr f \<Rightarrow>
          (let metadata1 = metadata @
                 [([''type'' \<mapsto> MType (feature_type fs),
                    ''names'' \<mapsto> MNames (feature_names fs),
                    ''ids'' \<mapsto> MIds (feature_ids fs)],
                   field_blobs f, field_types f)];
               metadata2 = (if feature_type fs = ''FLOAT'' then set_cardinality metadata1
                            else metadata1)
           in get_metadata_loop self rest metadata2))"

definition get_metadata :: "layer \<Rightarrow> error + metadata_entry list" where
  "get_metadata self = get_metadata_loop self (input_specs self) []"

subsection \<open>Notions used in the statements\<close>

text \<open>A field with the metadata of all its scalars removed: its names, types, shapes and blobs.\<close>

fun without_metadata :: "field \<Rightarrow> field"
  and without_metadata_fields :: "(string \<times> field) list \<Rightarrow> (string \<times> field) list" where
  "without_metadata (Scalar t sh b m) = Scalar t sh b None"
| "without_metadata (Struct s) = Struct (without_metadata_fields s)"
| "without_metadata_fields [] = []"
| "without_metadata_fields (nf # s) = (fst nf, without_metadata (snd nf)) # without_metadata_fields s"

text \<open>An entry that passes both checks of the constructor's loop.\<close>

definition accepted :: "feature_spec \<Rightarrow> bool" where
  "accepted fs \<longleftrightarrow>
     length (feature_names fs) = length (feature_ids fs) \<and>
     feature_type fs \<in> {''FLOAT'', ''ID_LIST'', ''ID_SCORE_LIST''}"

text \<open>The dictionary that \<open>get_metadata\<close> leaves in the entry of a feature spec.\<close>

definition metadata_dict :: "feature_spec \<Rightarrow> (string \<rightharpoonup> meta_value)" where
  "metadata_dict fs =
     (let d = [''type'' \<mapsto> MType (feature_type fs),
               ''names'' \<mapsto> MNames (feature_names fs),
               ''ids'' \<mapsto> MIds (feature_ids fs)]
      in if feature_type fs = ''FLOAT'' then d(''cardinality'' \<mapsto> MInt 1) else d)"

text \<open>
  Instances for the examples: a naming function that hands out the requested name and
  counts the calls, a model helper with the two constants, and an input record whose
  blobs are named after the field and the accessor path.
\<close>

definition numbered :: "string \<Rightarrow> nat \<Rightarrow> blob \<times> nat" where
  "numbered name k = (name, Suc k)"

definition sample_model :: model_helper where
  "sample_model = \<lparr>global_constants = [''ZERO'' \<mapsto> ''zero'', ''ZERO_RANGE'' \<mapsto> ''zero_range'']\<rparr>"

fun path_suffix :: "record_path \<Rightarrow> string" where
  "path_suffix Keys = ''.keys''"
| "path_suffix Values = ''.values''"
| "path_suffix Lengths = ''.lengths''"
| "path_suffix ValuesLengths = ''.values.lengths''"
| "path_suffix ValuesItems = ''.values.items''"
| "path_suffix ValuesKeys = ''.values.keys''"
| "path_suffix ValuesValues = ''.values.values''"

definition sample_record :: input_record where
  "sample_record field path = field @ path_suffix path"

definition sample_specs :: input_specs where
  "sample_specs =
     [(''a'', \<lparr>feature_type = ''FLOAT'', feature_names = [''x'', ''y''], feature_ids = [1, 2]\<rparr>),
      (''b'', \<lparr>feature_type = ''ID_LIST'', feature_names = [''z''], feature_ids = [7]\<rparr>),
      (''c'', \<lparr>feature_type = ''ID_SCORE_LIST'', feature_names = [''u'', ''v'', ''w''],
              feature_ids = [3, 4, 5]\<rparr>)]"

text \<open>
  What a call of \<open>add_ops\<close> on the net is, without its blobs: the mask application with its
  \<open>mask\<close> argument, the range computation, the aliasing. \<open>calls_of\<close> lists, for a feature
  spec, the calls that the branches of lines 138 to 193 make.
\<close>

datatype op_kind = MaskApplication "int list" | RangeComputation | Aliasing

fun kind_of :: "operator \<Rightarrow> op_kind" where
  "kind_of (SparseToDenseMask ins outs ids) = MaskApplication ids"
| "kind_of (LengthsToRanges i out) = RangeComputation"
| "kind_of (Alias i out) = Aliasing"

definition calls_of :: "feature_spec \<Rightarrow> op_kind list" where
  "calls_of fs =
     (if feature_type fs = ''FLOAT'' then [MaskApplication (feature_ids fs)]
      else if feature_type fs = ''ID_LIST''
        then [RangeComputation, MaskApplication (feature_ids fs), Aliasing]
      else [RangeComputation, MaskApplication (feature_ids fs), Aliasing, Aliasing])"

text \<open>The layer that the constructor builds from one \<open>'FLOAT'\<close> entry.\<close>

definition float_layer :: layer where
  "float_layer =
     \<lparr>input_record = sample_record,
      input_specs =
        [(''a'', \<lparr>feature_type = ''FLOAT'', feature_names = [''x'', ''y''], feature_ids = [1, 2]\<rparr>)],
      output_schema =
        [(''a'', Scalar float32 [2] ''a_output''
           (Some \<lparr>feature_type = ''FLOAT'', feature_names = [''x'', ''y''], feature_ids = [1, 2]\<rparr>))],
      zero = ''zero'', zero_range = ''zero_range''\<rparr>"

text \<open>The field that a path leads to from a field; the empty path leads to the field itself.\<close>

fun below :: "field \<Rightarrow> string list \<Rightarrow> field option" where
  "below f [] = Some f"
| "below (Struct c) (n # ns) = (case map_of c n of None \<Rightarrow> None | Some g \<Rightarrow> below g ns)"
| "below (Scalar t sh b m) (n # ns) = None"

text \<open>\<open>keeps f g\<close>: every scalar of \<open>f\<close> is found in \<open>g\<close> at the same path.\<close>

definition keeps :: "field \<Rightarrow> field \<Rightarrow> bool" where
  "keeps f g \<longleftrightarrow> (\<forall>p x. below f p = Some x \<longrightarrow> \<not> is_struct x \<longrightarrow> below g p = Some x)"

text \<open>\<open>holds s name f\<close>: every scalar of \<open>f\<close> is found in the struct \<open>s\<close>, under the nested name.\<close>

definition holds :: "struct \<Rightarrow> string \<Rightarrow> field \<Rightarrow> bool" where
  "holds s name f \<longleftrightarrow>
     (\<forall>q x. below f q = Some x \<longrightarrow> \<not> is_struct x \<longrightarrow>
        below (Struct s) (segments name @ q) = Some x)"

text \<open>
  The fields that the loop of lines 46 to 110 builds are scalars, or structs whose first
  field is the scalar \<open>ranges\<close>.
\<close>

fun output_shaped :: "field \<Rightarrow> bool" where
  "output_shaped (Scalar t sh b m) = True"
| "output_shaped (Struct ((n, Scalar t sh b m) # c)) = (n = ''ranges'')"
| "output_shaped (Struct c) = False"

text \<open>
  Field names that \<open>schema.Struct\<close> takes as they are: distinct, not empty, not \<open>lengths\<close>
  and without the separator \<open>:\<close>.
\<close>

definition plain_names :: "input_specs \<Rightarrow> bool" where
  "plain_names specs \<longleftrightarrow>
     distinct (map fst specs) \<and>
     (\<forall>sp\<in>set specs. fst sp \<noteq> [] \<and> fst sp \<noteq> ''lengths'' \<and> CHR '':'' \<notin> set (fst sp))"


section \<open>Properties\<close>

subsection \<open>Schemas and metadata\<close>

lemma without_metadata_fields_map:
  "without_metadata_fields s = map (\<lambda>nf. (fst nf, without_metadata (snd nf))) s"
  by (induction s) simp_all

lemma without_metadata_attach:
  "without_metadata (attach_metadata_to_scalars f fs) = without_metadata f"
  "without_metadata_fields (attach_metadata_to_fields s fs) = without_metadata_fields s"
  by (induction f fs and s fs rule: attach_metadata_to_scalars_attach_metadata_to_fields.induct)
    simp_all

lemma blobs_without_metadata:
  "field_blobs (without_metadata f) = field_blobs f"
  "struct_blobs (without_metadata_fields s) = struct_blobs s"
  by (induction f and s rule: without_metadata_without_metadata_fields.induct) simp_all

lemma types_without_metadata:
  "field_types (without_metadata f) = field_types f"
  "struct_types (without_metadata_fields s) = struct_types s"
  by (induction f and s rule: without_metadata_without_metadata_fields.induct) simp_all

lemma call_without_metadata: "call (without_metadata f) = call f"
  by (cases f) simp_all

lemma map_of_without_metadata:
  "map_of (without_metadata_fields s) c = map_option without_metadata (map_of s c)"
  by (induction s) auto

lemma getattr_without_metadata:
  "getattr (without_metadata f) c = map_sum id without_metadata (getattr f c)"
  by (cases f) (simp_all add: map_of_without_metadata split: option.splits)

lemma update_field_names: "map fst (update_field s n g) = map fst s"
  by (induction s n g rule: update_field.induct) simp_all

lemma update_field_without_metadata:
  "(\<And>f. without_metadata (g f) = without_metadata f) \<Longrightarrow>
   without_metadata_fields (update_field s n g) = without_metadata_fields s"
  by (induction s n g rule: update_field.induct) simp_all

lemma without_metadata_Scalar:
  "without_metadata f = Scalar t sh b None \<Longrightarrow> \<exists>m. f = Scalar t sh b m"
  by (cases f) simp_all





subsection \<open>Paths\<close>

lemma lookup_below: "lookup s p = (if p = [] then None else below (Struct s) p)"
proof (induction s p rule: lookup.induct)
  case (1 s)
  then show ?case by simp
next
  case (2 s n)
  then show ?case by (simp split: option.splits)
next
  case (3 s n v va)
  then show ?case
    by (auto split: option.splits field.splits)
qed

lemma below_append:
  "below f (p @ q) = (case below f p of None \<Rightarrow> None | Some g \<Rightarrow> below g q)"
proof (induction f p rule: below.induct)
  case (1 f)
  then show ?case by simp
next
  case (2 c n ns)
  then show ?case by (simp split: option.splits)
next
  case (3 t sh b m n ns)
  then show ?case by simp
qed

lemma below_snoc:
  "below f (p @ [k]) = Some x \<Longrightarrow> \<exists>c. below f p = Some (Struct c) \<and> map_of c k = Some x"
proof -
  assume a: "below f (p @ [k]) = Some x"
  then obtain g where g: "below f p = Some g" "below g [k] = Some x"
    by (auto simp: below_append split: option.splits)
  from g(2) obtain c where "g = Struct c" "map_of c k = Some x"
    by (cases g) (auto split: option.splits)
  with g(1) show ?thesis by blast
qed

lemma segments_not_Nil: "segments name \<noteq> []"
  by (induction name) (auto split: list.splits)

lemma segments_plain: "CHR '':'' \<notin> set name \<Longrightarrow> segments name = [name]"
  by (induction name) auto

lemma keeps_refl: "keeps f f"
  by (simp add: keeps_def)

lemma keeps_trans: "keeps f g \<Longrightarrow> keeps g h \<Longrightarrow> keeps f h"
  by (simp add: keeps_def)

lemma keeps_Scalar: "keeps (Scalar t sh b m) g \<Longrightarrow> g = Scalar t sh b m"
  unfolding keeps_def
proof -
  assume "\<forall>p x. below (Scalar t sh b m) p = Some x \<longrightarrow> \<not> is_struct x \<longrightarrow> below g p = Some x"
  then have "below (Scalar t sh b m) [] = Some (Scalar t sh b m) \<longrightarrow>
      \<not> is_struct (Scalar t sh b m) \<longrightarrow> below g [] = Some (Scalar t sh b m)"
    by blast
  then show "g = Scalar t sh b m" by simp
qed

lemma map_of_update_field:
  "map_of (update_field s n h) k = (if k = n then map_option h (map_of s n) else map_of s k)"
  by (induction s n h rule: update_field.induct) auto

lemma keeps_append: "keeps (Struct s) (Struct (s @ t))"
proof -
  have "below (Struct (s @ t)) p = Some x" if "below (Struct s) p = Some x" "\<not> is_struct x" for p x
  proof (cases p)
    case Nil
    with that show ?thesis by auto
  next
    case (Cons n ns)
    with that show ?thesis
      by (auto simp: map_add_def split: option.splits)
  qed
  then show ?thesis by (simp add: keeps_def)
qed

lemma keeps_update:
  assumes "map_of s n = Some old" and "keeps old new"
  shows "keeps (Struct s) (Struct (update_field s n (\<lambda>f. new)))"
proof -
  have "below (Struct (update_field s n (\<lambda>f. new))) p = Some x"
    if "below (Struct s) p = Some x" "\<not> is_struct x" for p x
  proof (cases p)
    case Nil
    with that show ?thesis by auto
  next
    case (Cons k ns)
    show ?thesis
    proof (cases "k = n")
      case True
      with that Cons assms(1) have "below old ns = Some x" by simp
      with assms(2) that(2) have "below new ns = Some x" by (simp add: keeps_def)
      with True Cons assms(1) show ?thesis by (simp add: map_of_update_field)
    next
      case False
      with that Cons show ?thesis by (simp add: map_of_update_field)
    qed
  qed
  then show ?thesis by (simp add: keeps_def)
qed

text \<open>The entry under a name that is new is found after the entries before it.\<close>

lemma below_append_new:
  "map_of s n = None \<Longrightarrow> below (Struct (s @ [(n, g)])) (n # ns) = below g ns"
  by (simp add: map_add_def)

lemma below_update:
  "map_of s n = Some old \<Longrightarrow> below (Struct (update_field s n (\<lambda>f. new))) (n # ns) = below new ns"
  by (simp add: map_of_update_field)

subsection \<open>Merging structs\<close>

lemma merge_keeps:
  "merge_field left right = Inr g \<Longrightarrow> keeps left g \<and> keeps right g"
  "merge_children l r = Inr m \<Longrightarrow> keeps (Struct l) (Struct m) \<and> keeps (Struct r) (Struct m)"
proof (induction left right and l r arbitrary: g and m rule: merge_field_merge_children.induct)
  case (1 l r)
  then show ?case by (auto split: sum.splits option.splits)
next
  case (2 l t sh b m)
  then show ?case by simp
next
  case (3 t sh b m right)
  then show ?case by simp
next
  case (4 l)
  have "keeps (Struct []) (Struct m)"
  proof -
    have "below (Struct m) p = Some x" if "below (Struct []) p = Some x" "\<not> is_struct x" for p x
      using that by (cases p) auto
    then show ?thesis by (simp add: keeps_def)
  qed
  with 4 show ?case by (simp add: keeps_refl)
next
  case (5 l nf r)
  obtain n f where nf: "nf = (n, f)" by (cases nf)
  show ?case
  proof (cases "map_of l n")
    case None
    with "5.prems" nf have rec: "merge_children (l @ [nf]) r = Inr m" by simp
    from "5.IH"(1) [OF _ rec] None nf have
      k: "keeps (Struct (l @ [nf])) (Struct m)" "keeps (Struct r) (Struct m)"
      by simp_all
    have "keeps (Struct l) (Struct m)"
      using keeps_trans [OF keeps_append k(1)] .
    moreover have "keeps (Struct (nf # r)) (Struct m)"
    proof -
      have "below (Struct m) p = Some x"
        if a: "below (Struct (nf # r)) p = Some x" "\<not> is_struct x" for p x
      proof (cases p)
        case Nil
        with a show ?thesis by auto
      next
        case (Cons k ns)
        show ?thesis
        proof (cases "k = n")
          case True
          with a Cons nf have "below f ns = Some x" by simp
          with below_append_new [OF None, of f ns] nf True Cons
          have "below (Struct (l @ [nf])) p = Some x" by simp
          with k(1) a(2) show ?thesis by (simp add: keeps_def)
        next
          case False
          with a Cons nf have "below (Struct r) p = Some x" by simp
          with k(2) a(2) show ?thesis by (simp add: keeps_def)
        qed
      qed
      then show ?thesis by (simp add: keeps_def)
    qed
    ultimately show ?thesis by simp
  next
    case (Some left)
    with "5.prems" nf obtain mf where
      mf: "merge_field left f = Inr mf" and
      rec: "merge_children (update_field l n (\<lambda>f. mf)) r = Inr m"
      by (auto split: sum.splits)
    from "5.IH"(2) [of left mf] Some nf mf have kf: "keeps left mf" "keeps f mf"
      by simp_all
    from "5.IH"(3) [of left mf m] Some nf mf rec have
      k: "keeps (Struct (update_field l n (\<lambda>f. mf))) (Struct m)" "keeps (Struct r) (Struct m)"
      by simp_all
    have "keeps (Struct l) (Struct m)"
      using keeps_trans [OF keeps_update [OF Some kf(1)] k(1)] .
    moreover have "keeps (Struct (nf # r)) (Struct m)"
    proof -
      have "below (Struct m) p = Some x"
        if a: "below (Struct (nf # r)) p = Some x" "\<not> is_struct x" for p x
      proof (cases p)
        case Nil
        with a show ?thesis by auto
      next
        case (Cons k ns)
        show ?thesis
        proof (cases "k = n")
          case True
          with a Cons nf have "below f ns = Some x" by simp
          with kf(2) a(2) have "below mf ns = Some x" by (simp add: keeps_def)
          with below_update [OF Some, of mf ns] True Cons
          have "below (Struct (update_field l n (\<lambda>f. mf))) p = Some x" by simp
          with k(1) a(2) show ?thesis by (simp add: keeps_def)
        next
          case False
          with a Cons nf have "below (Struct r) p = Some x" by simp
          with k(2) a(2) show ?thesis by (simp add: keeps_def)
        qed
      qed
      then show ?thesis by (simp add: keeps_def)
    qed
    ultimately show ?thesis by simp
  qed
qed

subsection \<open>The constructor of structs\<close>

lemma chain_below: "chain ns f = Inr g \<Longrightarrow> below g (ns @ q) = below f q"
proof (induction ns arbitrary: g)
  case Nil
  then show ?case by simp
next
  case (Cons n ns)
  then obtain g' where g': "chain ns f = Inr g'" "struct1 n g' = Inr g"
    by (auto split: sum.splits)
  from g'(2) have "g = Struct [(n, g')]"
    by (auto simp: struct1_def split: option.splits)
  with Cons.IH [OF g'(1)] show ?case by simp
qed

lemma nested_below:
  assumes "nested name f = Inr (n, g)"
  shows "\<exists>ns. segments name = n # ns \<and> (\<forall>q. below g (ns @ q) = below f q)"
proof (cases "segments name")
  case Nil
  with segments_not_Nil show ?thesis by blast
next
  case (Cons k ns)
  with assms have "k = n" "chain ns f = Inr g"
    by (auto simp: nested_def split: sum.splits)
  with Cons chain_below [of ns f g] show ?thesis by simp
qed

lemma nested_plain: "CHR '':'' \<notin> set name \<Longrightarrow> nested name f = Inr (name, f)"
  by (simp add: nested_def segments_plain)

lemma add_fields_holds:
  "add_fields rest added = Inr s \<Longrightarrow>
   keeps (Struct added) (Struct s) \<and> (\<forall>nf\<in>set rest. holds s (fst nf) (snd nf))"
proof (induction rest arbitrary: added)
  case Nil
  then show ?case by (simp add: keeps_refl)
next
  case (Cons nf rest)
  obtain name f where nf: "nf = (name, f)" by (cases nf)
  from Cons.prems nf obtain n g where ng: "nested name f = Inr (n, g)"
    by (auto split: sum.splits)
  from nested_below [OF ng] obtain ns where
    ns: "segments name = n # ns" "\<And>q. below g (ns @ q) = below f q"
    by blast
  show ?case
  proof (cases "map_of added n")
    case None
    with Cons.prems nf ng have rec: "add_fields rest (added @ [(n, g)]) = Inr s"
      by simp
    from Cons.IH [OF rec] have
      k: "keeps (Struct (added @ [(n, g)])) (Struct s)" and
      h: "\<forall>nf\<in>set rest. holds s (fst nf) (snd nf)"
      by simp_all
    have "keeps (Struct added) (Struct s)"
      using keeps_trans [OF keeps_append k] .
    moreover have "holds s name f"
      unfolding holds_def
    proof (intro allI impI)
      fix q x assume a: "below f q = Some x" "\<not> is_struct x"
      with ns(2) [of q] below_append_new [OF None, of g "ns @ q"]
      have b: "below (Struct (added @ [(n, g)])) (n # ns @ q) = Some x" by simp
      from k [unfolded keeps_def, rule_format, OF b a(2)]
      have "below (Struct s) (n # ns @ q) = Some x" .
      with ns(1) show "below (Struct s) (segments name @ q) = Some x" by simp
    qed
    ultimately show ?thesis using h nf by simp
  next
    case (Some old)
    with Cons.prems nf ng obtain m where
      m: "merge_field old g = Inr m" and
      rec: "add_fields rest (update_field added n (\<lambda>f. m)) = Inr s"
      by (auto split: sum.splits if_splits)
    from merge_keeps(1) [OF m] have km: "keeps old m" "keeps g m" by simp_all
    from Cons.IH [OF rec] have
      k: "keeps (Struct (update_field added n (\<lambda>f. m))) (Struct s)" and
      h: "\<forall>nf\<in>set rest. holds s (fst nf) (snd nf)"
      by simp_all
    have "keeps (Struct added) (Struct s)"
      using keeps_trans [OF keeps_update [OF Some km(1)] k] .
    moreover have "holds s name f"
      unfolding holds_def
    proof (intro allI impI)
      fix q x assume a: "below f q = Some x" "\<not> is_struct x"
      with ns(2) [of q] have "below g (ns @ q) = Some x" by simp
      with km(2) a(2) have "below m (ns @ q) = Some x" by (simp add: keeps_def)
      with below_update [OF Some, of m "ns @ q"]
      have b: "below (Struct (update_field added n (\<lambda>f. m))) (n # ns @ q) = Some x" by simp
      from k [unfolded keeps_def, rule_format, OF b a(2)]
      have "below (Struct s) (n # ns @ q) = Some x" .
      with ns(1) show "below (Struct s) (segments name @ q) = Some x" by simp
    qed
    ultimately show ?thesis using h nf by simp
  qed
qed

lemma new_struct_holds:
  "new_struct fs = Inr s \<Longrightarrow> nf \<in> set fs \<Longrightarrow> holds s (fst nf) (snd nf)"
  using add_fields_holds [of fs "[]" s]
  by (auto simp: new_struct_def split: option.splits)

text \<open>Two fields built by the loop cannot be merged: both would have the scalar \<open>ranges\<close>.\<close>

lemma shaped_no_merge:
  assumes "output_shaped old" and "output_shaped g" and "is_struct old" and "is_struct g"
  shows "\<exists>e. merge_field old g = Inl e"
proof -
  from assms(1,3) obtain t sh b m c where old: "old = Struct ((''ranges'', Scalar t sh b m) # c)"
    by (cases old rule: output_shaped.cases) auto
  from assms(2,4) obtain t' sh' b' m' c' where g: "g = Struct ((''ranges'', Scalar t' sh' b' m') # c')"
    by (cases g rule: output_shaped.cases) auto
  show ?thesis by (simp add: old g)
qed

lemma add_fields_plain_Inr:
  assumes "add_fields rest added = Inr s"
    and "\<forall>nf\<in>set rest. CHR '':'' \<notin> set (fst nf) \<and> output_shaped (snd nf)"
    and "\<forall>nf\<in>set added. output_shaped (snd nf)"
  shows "s = added @ rest \<and> distinct (map fst rest) \<and> fst ` set rest \<inter> fst ` set added = {}"
  using assms
proof (induction rest arbitrary: added)
  case Nil
  then show ?case by simp
next
  case (Cons nf rest)
  obtain name f where nf: "nf = (name, f)" by (cases nf)
  with Cons.prems(2) have plain: "CHR '':'' \<notin> set name" and shaped: "output_shaped f"
    by simp_all
  have ng: "nested name f = Inr (name, f)"
    using nested_plain [OF plain] .
  have none: "map_of added name = None"
  proof (cases "map_of added name")
    case None
    then show ?thesis .
  next
    case (Some old)
    then have "(name, old) \<in> set added" by (rule map_of_SomeD)
    with Cons.prems(3) have so: "output_shaped old" by auto
    show ?thesis
    proof (cases "is_struct f \<and> is_struct old")
      case True
      with shaped_no_merge [OF so shaped] obtain e where "merge_field old f = Inl e"
        by blast
      with Cons.prems(1) nf ng Some True show ?thesis by simp
    next
      case False
      with Cons.prems(1) nf ng Some show ?thesis by auto
    qed
  qed
  with Cons.prems(1) nf ng have rec: "add_fields rest (added @ [(name, f)]) = Inr s"
    by simp
  from Cons.prems(2,3) nf shaped have
    "\<forall>nf\<in>set rest. CHR '':'' \<notin> set (fst nf) \<and> output_shaped (snd nf)"
    "\<forall>nf\<in>set (added @ [(name, f)]). output_shaped (snd nf)"
    by auto
  from Cons.IH [OF rec this] have
    r: "s = (added @ [(name, f)]) @ rest" "distinct (map fst rest)"
      "fst ` set rest \<inter> fst ` set (added @ [(name, f)]) = {}"
    by simp_all
  from none have "name \<notin> fst ` set added"
    by (simp add: map_of_eq_None_iff)
  with r nf show ?case by auto
qed

lemma add_fields_plain_total:
  assumes "\<forall>nf\<in>set rest. CHR '':'' \<notin> set (fst nf)"
    and "distinct (map fst rest)" and "fst ` set rest \<inter> fst ` set added = {}"
  shows "add_fields rest added = Inr (added @ rest)"
  using assms
proof (induction rest arbitrary: added)
  case Nil
  then show ?case by simp
next
  case (Cons nf rest)
  obtain name f where nf: "nf = (name, f)" by (cases nf)
  with Cons.prems(1) have ng: "nested name f = Inr (name, f)"
    by (simp add: nested_plain)
  from Cons.prems(3) nf have none: "map_of added name = None"
    by (auto simp: map_of_eq_None_iff)
  from Cons.prems nf have
    "\<forall>nf\<in>set rest. CHR '':'' \<notin> set (fst nf)" "distinct (map fst rest)"
    "fst ` set rest \<inter> fst ` set (added @ [(name, f)]) = {}"
    by auto
  from Cons.IH [OF this] nf ng none show ?case by simp
qed

lemma check_names_None:
  "\<forall>nf\<in>set s. fst nf \<noteq> [] \<and> fst nf \<noteq> ''lengths'' \<Longrightarrow> check_names s = None"
  by (induction s rule: check_names.induct) auto

text \<open>The errors of the constructor of structs are not the error of the bare assertion.\<close>

lemma check_names_error: "check_names s = Some e \<Longrightarrow> e \<noteq> AssertionError"
  by (induction s rule: check_names.induct) (auto split: if_splits)

lemma chain_error: "chain ns f = Inl e \<Longrightarrow> e \<noteq> AssertionError"
  by (induction ns arbitrary: e)
    (auto simp: struct1_def split: sum.splits if_splits)

lemma nested_error: "nested name f = Inl e \<Longrightarrow> e \<noteq> AssertionError"
  by (auto simp: nested_def dest: chain_error split: list.splits sum.splits)

lemma merge_error:
  "merge_field left right = Inl e \<Longrightarrow> e \<noteq> AssertionError"
  "merge_children l r = Inl e \<Longrightarrow> e \<noteq> AssertionError"
proof (induction left right and l r arbitrary: e and e rule: merge_field_merge_children.induct)
  case (1 l r)
  then show ?case
    by (auto split: sum.splits option.splits dest: check_names_error)
next
  case (2 l t sh b m)
  then show ?case by auto
next
  case (3 t sh b m right)
  then show ?case by auto
next
  case (4 l)
  then show ?case by simp
next
  case (5 l nf r)
  then show ?case
    by (auto split: sum.splits option.splits)
qed

lemma add_fields_error: "add_fields rest added = Inl e \<Longrightarrow> e \<noteq> AssertionError"
proof (induction rest arbitrary: added)
  case Nil
  then show ?case by simp
next
  case (Cons nf rest)
  obtain name f where nf: "nf = (name, f)" by (cases nf)
  show ?case
  proof (cases "nested name f")
    case (Inl e')
    with Cons.prems nf have "e = e'" by simp
    with nested_error [OF Inl] show ?thesis by simp
  next
    case (Inr ng)
    obtain n g where ng: "ng = (n, g)" by (cases ng)
    show ?thesis
    proof (cases "map_of added n")
      case None
      with Cons.prems nf Inr ng have "add_fields rest (added @ [(n, g)]) = Inl e" by simp
      then show ?thesis by (rule Cons.IH)
    next
      case (Some old)
      show ?thesis
      proof (cases "\<not> is_struct g \<or> \<not> is_struct old")
        case True
        with Cons.prems nf Inr ng Some show ?thesis by auto
      next
        case False
        show ?thesis
        proof (cases "merge_field old g")
          case (Inl e')
          with Cons.prems nf Inr ng Some False have "e = e'" by simp
          with merge_error(1) [OF Inl] show ?thesis by simp
        next
          case (Inr m)
          with Cons.prems nf \<open>nested name f = Inr ng\<close> ng Some False
          have "add_fields rest (update_field added n (\<lambda>f. m)) = Inl e" by simp
          then show ?thesis by (rule Cons.IH)
        qed
      qed
    qed
  qed
qed

lemma new_struct_error: "new_struct fs = Inl e \<Longrightarrow> e \<noteq> AssertionError"
  by (auto simp: new_struct_def split: option.splits dest: check_names_error add_fields_error)

subsection \<open>The loop of the constructor\<close>

lemma output_for_rejected:
  "\<not> accepted fs \<Longrightarrow>
   output_for gnbr field fs st =
     Inl (if length (feature_names fs) \<noteq> length (feature_ids fs) then AssertionError
          else TypeError (''Unsupported input type: '' @ feature_type fs))"
  by (simp add: output_for_def accepted_def)

lemma output_for_Inr:
  assumes "output_for gnbr field fs st = Inr (out, st1)"
  shows "accepted fs \<and> fst out = field \<and> without_metadata (snd out) = snd out"
    and "feature_type fs = ''FLOAT'' \<Longrightarrow>
         \<exists>b. snd out = Scalar float32 [length (feature_ids fs)] b None"
    and "feature_type fs = ''ID_LIST'' \<Longrightarrow>
         \<exists>r v. snd out = Struct [(''ranges'', Scalar int32 [length (feature_ids fs), 2] r None),
                                 (''values'', Scalar int64 [] v None)]"
    and "feature_type fs = ''ID_SCORE_LIST'' \<Longrightarrow>
         \<exists>r i s. snd out = Struct [(''ranges'', Scalar int32 [length (feature_ids fs), 2] r None),
                                   (''ids'', Scalar int64 [] i None),
                                   (''scores'', Scalar float32 [] s None)]"
  using assms
  by (auto simp: output_for_def accepted_def split: if_splits prod.splits)

lemma output_for_accepted:
  "accepted fs \<Longrightarrow> \<exists>out st1. output_for gnbr field fs st = Inr (out, st1)"
  by (auto simp: output_for_def accepted_def split: prod.splits)

lemma outputs_loop_Inr:
  "outputs_loop gnbr specs acc st = Inr (outs, st') \<Longrightarrow>
   \<exists>new. outs = acc @ new \<and>
     list_all2 (\<lambda>sp out. \<exists>s1 s2. output_for gnbr (fst sp) (snd sp) s1 = Inr (out, s2)) specs new"
proof (induction specs arbitrary: acc st)
  case Nil
  then show ?case by simp
next
  case (Cons sp specs)
  obtain field fs where sp: "sp = (field, fs)" by (cases sp)
  from Cons.prems sp obtain out st1 where
    out: "output_for gnbr field fs st = Inr (out, st1)" and
    rest: "outputs_loop gnbr specs (acc @ [out]) st1 = Inr (outs, st')"
    by (auto split: sum.splits)
  from Cons.IH [OF rest] obtain new where
    new: "outs = (acc @ [out]) @ new"
      "list_all2 (\<lambda>sp out. \<exists>s1 s2. output_for gnbr (fst sp) (snd sp) s1 = Inr (out, s2)) specs new"
    by blast
  have "list_all2 (\<lambda>sp out. \<exists>s1 s2. output_for gnbr (fst sp) (snd sp) s1 = Inr (out, s2))
          (sp # specs) (out # new)"
    using new(2) out sp by auto
  with new(1) show ?case by (intro exI [of _ "out # new"]) simp
qed

lemma outputs_loop_total:
  "\<forall>sp\<in>set specs. accepted (snd sp) \<Longrightarrow>
   \<exists>outs st'. outputs_loop gnbr specs acc st = Inr (outs, st')"
proof (induction specs arbitrary: acc st)
  case Nil
  then show ?case by simp
next
  case (Cons sp specs)
  obtain field fs where sp: "sp = (field, fs)" by (cases sp)
  with Cons.prems have "accepted fs" by simp
  then obtain out st1 where "output_for gnbr field fs st = Inr (out, st1)"
    using output_for_accepted [of fs gnbr field st] by auto
  with Cons.IH [of "acc @ [out]" st1] Cons.prems sp show ?case by simp
qed

lemma outputs_loop_first_rejected:
  "\<forall>sp\<in>set pre. accepted (snd sp) \<Longrightarrow> \<not> accepted fs \<Longrightarrow>
   outputs_loop gnbr (pre @ (field, fs) # post) acc st =
     Inl (if length (feature_names fs) \<noteq> length (feature_ids fs) then AssertionError
          else TypeError (''Unsupported input type: '' @ feature_type fs))"
proof (induction pre arbitrary: acc st)
  case Nil
  then show ?case by (simp add: output_for_rejected)
next
  case (Cons sp pre)
  obtain field' fs' where sp: "sp = (field', fs')" by (cases sp)
  with Cons.prems have "accepted fs'" by simp
  then obtain out st1 where "output_for gnbr field' fs' st = Inr (out, st1)"
    using output_for_accepted [of fs' gnbr field' st] by auto
  with Cons.IH [of "acc @ [out]" st1] Cons.prems sp show ?case by simp
qed

lemma first_rejected:
  assumes "\<not> (\<forall>sp\<in>set specs. accepted (snd sp))"
  shows "\<exists>pre field fs post. specs = pre @ (field, fs) # post \<and>
           (\<forall>sp\<in>set pre. accepted (snd sp)) \<and> \<not> accepted fs"
proof -
  from assms have "\<exists>sp\<in>set specs. \<not> accepted (snd sp)" by blast
  then obtain pre sp post where
    "specs = pre @ sp # post" "\<not> accepted (snd sp)" "\<forall>x\<in>set pre. \<not> \<not> accepted (snd x)"
    using split_list_first_prop [of specs "\<lambda>sp. \<not> accepted (snd sp)"] by blast
  then show ?thesis
    by (intro exI [of _ pre] exI [of _ "fst sp"] exI [of _ "snd sp"] exI [of _ post]) simp
qed

lemma output_for_shaped:
  "output_for gnbr field fs st = Inr (out, st1) \<Longrightarrow> output_shaped (snd out)"
  by (auto simp: output_for_def split: if_splits prod.splits)

lemma outputs_loop_names:
  assumes "outputs_loop gnbr specs [] st = Inr (outs, st')"
  shows "map fst outs = map fst specs"
proof -
  from outputs_loop_Inr [OF assms] have
    all: "list_all2 (\<lambda>sp out. \<exists>s1 s2. output_for gnbr (fst sp) (snd sp) s1 = Inr (out, s2)) specs outs"
    by simp
  show ?thesis
  proof (rule nth_equalityI)
    show "length (map fst outs) = length (map fst specs)"
      using all by (simp add: list_all2_lengthD)
  next
    fix i assume "i < length (map fst outs)"
    then have i: "i < length specs" using all by (simp add: list_all2_lengthD)
    from list_all2_nthD [OF all i] obtain s1 s2 where
      "output_for gnbr (fst (specs ! i)) (snd (specs ! i)) s1 = Inr (outs ! i, s2)"
      by blast
    from output_for_Inr(1) [OF this] have "fst (outs ! i) = fst (specs ! i)" by simp
    with i all show "map fst outs ! i = map fst specs ! i"
      by (simp add: list_all2_lengthD)
  qed
qed

lemma outputs_loop_plain:
  assumes "outputs_loop gnbr specs [] st = Inr (outs, st')"
  shows "without_metadata_fields outs = outs" and "\<forall>nf\<in>set outs. output_shaped (snd nf)"
proof -
  from outputs_loop_Inr [OF assms] have
    all: "list_all2 (\<lambda>sp out. \<exists>s1 s2. output_for gnbr (fst sp) (snd sp) s1 = Inr (out, s2)) specs outs"
    by simp
  have each: "without_metadata (snd out) = snd out \<and> output_shaped (snd out)"
    if "out \<in> set outs" for out
  proof -
    from that obtain i where i: "i < length outs" "outs ! i = out"
      by (auto simp: in_set_conv_nth)
    then have "i < length specs" using all by (simp add: list_all2_lengthD)
    from list_all2_nthD [OF all this] i(2) obtain s1 s2 where
      "output_for gnbr (fst (specs ! i)) (snd (specs ! i)) s1 = Inr (out, s2)"
      by blast
    from output_for_Inr(1) [OF this] output_for_shaped [OF this] show ?thesis by simp
  qed
  then show "\<forall>nf\<in>set outs. output_shaped (snd nf)" by blast
  from each show "without_metadata_fields outs = outs"
    by (simp add: without_metadata_fields_map map_idI)
qed

subsection \<open>Attaching the metadata\<close>

lemma below_without_metadata:
  "below (without_metadata f) p = map_option without_metadata (below f p)"
proof (induction f p rule: below.induct)
  case (1 f)
  then show ?case by simp
next
  case (2 c n ns)
  then show ?case
    by (cases "map_of c n") (simp_all add: map_of_without_metadata)
next
  case (3 t sh b m n ns)
  then show ?case by simp
qed

lemma below_same_shape:
  assumes "without_metadata_fields s' = without_metadata_fields s"
    and "below (Struct s) p = Some x"
  shows "\<exists>x'. below (Struct s') p = Some x' \<and> without_metadata x' = without_metadata x"
proof -
  have "map_option without_metadata (below (Struct s') p) =
      map_option without_metadata (below (Struct s) p)"
    using below_without_metadata [of "Struct s'" p] below_without_metadata [of "Struct s" p] assms(1)
    by simp
  with assms(2) show ?thesis by (cases "below (Struct s') p") simp_all
qed

lemma update_path_without_metadata:
  "(\<And>f. without_metadata (g f) = without_metadata f) \<Longrightarrow>
   without_metadata_fields (update_path s p g) = without_metadata_fields s"
proof (induction s p g rule: update_path.induct)
  case (1 s g)
  then show ?case by simp
next
  case (2 s n g)
  then show ?case by (simp add: update_field_without_metadata)
next
  case (3 s n v va g)
  have "without_metadata (case f of Struct c \<Rightarrow> Struct (update_path c (v # va) g) | _ \<Rightarrow> f)
      = without_metadata f" for f
    using 3 by (cases f) simp_all
  then show ?case by (simp add: update_field_without_metadata)
qed

lemma getitem_below:
  "getitem s name = Inr f \<longleftrightarrow> below (Struct s) (segments name) = Some f"
  by (auto simp: getitem_def lookup_below segments_not_Nil split: option.splits)

lemma getitem_Inl: "getitem s name = Inl e \<Longrightarrow> e = KeyError name"
  by (auto simp: getitem_def split: option.splits)

lemma metadata_loop_Inr:
  "metadata_loop specs s = Inr s' \<Longrightarrow> without_metadata_fields s' = without_metadata_fields s"
proof (induction specs s rule: metadata_loop.induct)
  case (1 schema)
  then show ?case by simp
next
  case (2 field fs rest schema)
  then show ?case
    by (auto split: sum.splits simp: update_path_without_metadata without_metadata_attach)
qed

lemma metadata_loop_total:
  "\<forall>sp\<in>set specs. \<exists>f. below (Struct s) (segments (fst sp)) = Some f \<Longrightarrow>
   \<exists>s'. metadata_loop specs s = Inr s'"
proof (induction specs s rule: metadata_loop.induct)
  case (1 schema)
  then show ?case by simp
next
  case (2 field fs rest schema)
  from "2.prems" obtain f where f: "getitem schema field = Inr f"
    by (auto simp: getitem_below)
  let ?s = "update_path schema (segments field) (\<lambda>f. attach_metadata_to_scalars f fs)"
  have same: "without_metadata_fields ?s = without_metadata_fields schema"
    by (simp add: update_path_without_metadata without_metadata_attach)
  have "\<forall>sp\<in>set rest. \<exists>f. below (Struct ?s) (segments (fst sp)) = Some f"
  proof
    fix sp assume "sp \<in> set rest"
    with "2.prems" obtain x where "below (Struct schema) (segments (fst sp)) = Some x"
      by auto
    from below_same_shape [OF same this]
    show "\<exists>f. below (Struct ?s) (segments (fst sp)) = Some f" by blast
  qed
  from "2.IH" [OF f this] f show ?case by simp
qed

lemma metadata_loop_error: "metadata_loop specs s = Inl e \<Longrightarrow> \<exists>k. e = KeyError k"
proof (induction specs s rule: metadata_loop.induct)
  case (1 schema)
  then show ?case by simp
next
  case (2 field fs rest schema)
  then show ?case
    by (auto split: sum.splits dest: getitem_Inl)
qed

lemma holds_found:
  assumes "holds s name g" and "output_shaped g"
  shows "\<exists>f. below (Struct s) (segments name) = Some f"
proof (cases g)
  case (Scalar t sh b m)
  with assms(1) have "below (Struct s) (segments name @ []) = Some g"
    unfolding holds_def by (metis below.simps(1) is_struct.simps(2))
  then show ?thesis by simp
next
  case (Struct c)
  with assms(2) obtain t sh b m c' where c: "c = (''ranges'', Scalar t sh b m) # c'"
    by (cases g rule: output_shaped.cases) auto
  with Struct have "below g [''ranges''] = Some (Scalar t sh b m)" by simp
  with assms(1) have "below (Struct s) (segments name @ [''ranges'']) = Some (Scalar t sh b m)"
    unfolding holds_def by (metis is_struct.simps(2))
  from below_snoc [OF this] show ?thesis by blast
qed

subsection \<open>The constructor\<close>

lemma init_Inr:
  assumes "init gnbr model inp specs st = Inr (self, st')"
  shows "\<exists>outs s0. outputs_loop gnbr specs [] st = Inr (outs, st') \<and>
           new_struct outs = Inr s0 \<and>
           metadata_loop specs s0 = Inr (output_schema self)"
    and "input_specs self = specs" and "input_record self = inp"
    and "global_constants model ''ZERO'' = Some (zero self)"
    and "global_constants model ''ZERO_RANGE'' = Some (zero_range self)"
  using assms
  by (auto simp: init_def global_constant_def split: sum.splits option.splits)

lemma init_first_rejected:
  assumes "\<forall>sp\<in>set pre. accepted (snd sp)" and "\<not> accepted fs"
  shows "init gnbr model inp (pre @ (field, fs) # post) st =
     Inl (if length (feature_names fs) \<noteq> length (feature_ids fs) then AssertionError
          else TypeError (''Unsupported input type: '' @ feature_type fs))"
  using outputs_loop_first_rejected [OF assms, of gnbr field post "[]" st]
  by (simp add: init_def)

text \<open>
  What the output schema of a constructed layer has for entry \<open>i\<close>: every scalar of the
  field built for the entry, under the entry's name, up to the metadata.
\<close>

lemma init_entry:
  assumes "init gnbr model inp specs st = Inr (self, st')" and "i < length specs"
  shows "\<exists>s1 s2 g. output_for gnbr (fst (specs ! i)) (snd (specs ! i)) s1
                       = Inr ((fst (specs ! i), g), s2) \<and>
           (\<forall>q x. below g q = Some x \<longrightarrow> \<not> is_struct x \<longrightarrow>
              (\<exists>x'. below (Struct (output_schema self)) (segments (fst (specs ! i)) @ q) = Some x' \<and>
                    without_metadata x' = without_metadata x))"
proof -
  from init_Inr(1) [OF assms(1)] obtain outs s0 where
    outs: "outputs_loop gnbr specs [] st = Inr (outs, st')" and
    s0: "new_struct outs = Inr s0" and
    meta: "metadata_loop specs s0 = Inr (output_schema self)"
    by blast
  from outputs_loop_Inr [OF outs] have
    all: "list_all2 (\<lambda>sp out. \<exists>s1 s2. output_for gnbr (fst sp) (snd sp) s1 = Inr (out, s2)) specs outs"
    by simp
  from assms(2) all have io: "i < length outs" by (simp add: list_all2_lengthD)
  from list_all2_nthD [OF all assms(2)] obtain s1 s2 where
    o: "output_for gnbr (fst (specs ! i)) (snd (specs ! i)) s1 = Inr (outs ! i, s2)"
    by blast
  from output_for_Inr(1) [OF o] have n: "fst (outs ! i) = fst (specs ! i)" by simp
  then have oi: "outs ! i = (fst (specs ! i), snd (outs ! i))"
    by (cases "outs ! i") simp
  from io have "outs ! i \<in> set outs" by simp
  from new_struct_holds [OF s0 this] n have h: "holds s0 (fst (specs ! i)) (snd (outs ! i))"
    by simp
  have same: "without_metadata_fields (output_schema self) = without_metadata_fields s0"
    using metadata_loop_Inr [OF meta] .
  have "\<exists>x'. below (Struct (output_schema self)) (segments (fst (specs ! i)) @ q) = Some x' \<and>
              without_metadata x' = without_metadata x"
    if a: "below (snd (outs ! i)) q = Some x" "\<not> is_struct x" for q x
  proof -
    from h [unfolded holds_def, rule_format, OF a]
    have "below (Struct s0) (segments (fst (specs ! i)) @ q) = Some x" .
    from below_same_shape [OF same this] show ?thesis .
  qed
  moreover from o oi have "output_for gnbr (fst (specs ! i)) (snd (specs ! i)) s1
      = Inr ((fst (specs ! i), snd (outs ! i)), s2)"
    by simp
  ultimately show ?thesis by blast
qed

text \<open>With field names without separator, the output schema is the list of the fields built.\<close>

lemma init_plain:
  assumes "init gnbr model inp specs st = Inr (self, st')"
    and "\<forall>sp\<in>set specs. CHR '':'' \<notin> set (fst sp)"
  shows "distinct (map fst specs)"
    and "map fst (output_schema self) = map fst specs"
    and "i < length specs \<Longrightarrow>
         \<exists>s1 s2 g. output_for gnbr (fst (specs ! i)) (snd (specs ! i)) s1
                       = Inr ((fst (specs ! i), g), s2) \<and>
           fst (output_schema self ! i) = fst (specs ! i) \<and>
           without_metadata (snd (output_schema self ! i)) = g"
proof -
  from init_Inr(1) [OF assms(1)] obtain outs s0 where
    outs: "outputs_loop gnbr specs [] st = Inr (outs, st')" and
    s0: "new_struct outs = Inr s0" and
    meta: "metadata_loop specs s0 = Inr (output_schema self)"
    by blast
  have names: "map fst outs = map fst specs"
    using outputs_loop_names [OF outs] .
  have "fst ` set outs = fst ` set specs"
    using names by (metis set_map)
  with assms(2) have plain: "\<forall>nf\<in>set outs. CHR '':'' \<notin> set (fst nf)"
    by (metis imageE imageI)
  from outputs_loop_plain [OF outs] have
    wm: "without_metadata_fields outs = outs" and shaped: "\<forall>nf\<in>set outs. output_shaped (snd nf)"
    by simp_all
  from s0 have "add_fields outs [] = Inr s0"
    by (auto simp: new_struct_def split: option.splits)
  from add_fields_plain_Inr [OF this] plain shaped have
    eq: "s0 = outs" and d: "distinct (map fst outs)"
    by simp_all
  from d names show "distinct (map fst specs)" by simp
  have same: "without_metadata_fields (output_schema self) = outs"
    using metadata_loop_Inr [OF meta] eq wm by simp
  then have m: "map (\<lambda>nf. (fst nf, without_metadata (snd nf))) (output_schema self) = outs"
    by (simp add: without_metadata_fields_map)
  then have "map fst (map (\<lambda>nf. (fst nf, without_metadata (snd nf))) (output_schema self)) = map fst outs"
    by simp
  then have "map fst (output_schema self) = map fst outs"
    by (simp add: comp_def)
  with names show n: "map fst (output_schema self) = map fst specs" by simp
  show "\<exists>s1 s2 g. output_for gnbr (fst (specs ! i)) (snd (specs ! i)) s1
                       = Inr ((fst (specs ! i), g), s2) \<and>
           fst (output_schema self ! i) = fst (specs ! i) \<and>
           without_metadata (snd (output_schema self ! i)) = g"
    if i: "i < length specs"
  proof -
    from outputs_loop_Inr [OF outs] have
      all: "list_all2 (\<lambda>sp out. \<exists>s1 s2. output_for gnbr (fst sp) (snd sp) s1 = Inr (out, s2)) specs outs"
      by simp
    from list_all2_nthD [OF all i] obtain s1 s2 where
      o: "output_for gnbr (fst (specs ! i)) (snd (specs ! i)) s1 = Inr (outs ! i, s2)"
      by blast
    have len: "length (output_schema self) = length specs" "length outs = length specs"
      using n names by (metis length_map)+
    from m have "map (\<lambda>nf. (fst nf, without_metadata (snd nf))) (output_schema self) ! i = outs ! i"
      by simp
    with i len have oi: "outs ! i = (fst (output_schema self ! i), without_metadata (snd (output_schema self ! i)))"
      by simp
    from output_for_Inr(1) [OF o] oi have "fst (output_schema self ! i) = fst (specs ! i)"
      by simp
    with o oi show ?thesis by auto
  qed
qed

lemma init_length:
  assumes "init gnbr model inp specs st = Inr (self, st')"
    and "\<forall>sp\<in>set specs. CHR '':'' \<notin> set (fst sp)"
  shows "length (output_schema self) = length specs"
  using init_plain(2) [OF assms] by (metis length_map)

lemma getitem_nth:
  assumes "distinct (map fst s)" and "i < length s" and "CHR '':'' \<notin> set (fst (s ! i))"
  shows "getitem s (fst (s ! i)) = Inr (snd (s ! i))"
proof -
  from assms(2) have "(fst (s ! i), snd (s ! i)) \<in> set s" by simp
  with assms(1) have "map_of s (fst (s ! i)) = Some (snd (s ! i))"
    by (rule map_of_is_SomeI)
  with assms(3) show ?thesis by (simp add: getitem_def segments_plain)
qed

lemma init_getitem:
  assumes "init gnbr model inp specs st = Inr (self, st')"
    and "\<forall>sp\<in>set specs. CHR '':'' \<notin> set (fst sp)" and "i < length specs"
  shows "getitem (output_schema self) (fst (specs ! i)) = Inr (snd (output_schema self ! i))"
proof -
  have n: "map fst (output_schema self) = map fst specs"
    using init_plain(2) [OF assms(1,2)] .
  with init_plain(1) [OF assms(1,2)] have d: "distinct (map fst (output_schema self))"
    by simp
  from assms(3) init_length [OF assms(1,2)] have i: "i < length (output_schema self)"
    by simp
  have e: "fst (output_schema self ! i) = fst (specs ! i)"
    using n i assms(3) by (metis nth_map)
  with assms(2,3) have "CHR '':'' \<notin> set (fst (output_schema self ! i))" by simp
  from getitem_nth [OF d i this] e show ?thesis by simp
qed

lemma init_Inr_accepted:
  assumes "init gnbr model inp specs st = Inr (self, st')" and "sp \<in> set specs"
  shows "accepted (snd sp)"
proof -
  from assms(2) obtain i where i: "i < length specs" "specs ! i = sp"
    by (auto simp: in_set_conv_nth)
  from init_entry [OF assms(1) i(1)] obtain s1 s2 g where
    "output_for gnbr (fst (specs ! i)) (snd (specs ! i)) s1 = Inr ((fst (specs ! i), g), s2)"
    by blast
  from output_for_Inr(1) [OF this] i(2) show ?thesis by simp
qed

text \<open>Success of the constructor, for entries that pass both checks and plain field names.\<close>

lemma init_total:
  assumes "\<forall>sp\<in>set specs. accepted (snd sp)" and "plain_names specs"
    and "global_constants model ''ZERO'' \<noteq> None"
    and "global_constants model ''ZERO_RANGE'' \<noteq> None"
  shows "\<exists>self st'. init gnbr model inp specs st = Inr (self, st')"
proof -
  from outputs_loop_total [OF assms(1), of gnbr "[]" st] obtain outs st' where
    outs: "outputs_loop gnbr specs [] st = Inr (outs, st')" by auto
  have names: "map fst outs = map fst specs"
    using outputs_loop_names [OF outs] .
  then have img: "fst ` set outs = fst ` set specs"
    by (metis set_map)
  from assms(2) have "\<forall>n\<in>fst ` set specs. n \<noteq> [] \<and> n \<noteq> ''lengths'' \<and> CHR '':'' \<notin> set n"
    by (auto simp: plain_names_def)
  with img have pl: "\<forall>nf\<in>set outs. fst nf \<noteq> [] \<and> fst nf \<noteq> ''lengths'' \<and> CHR '':'' \<notin> set (fst nf)"
    by (metis imageI)
  from assms(2) names have d: "distinct (map fst outs)"
    by (simp add: plain_names_def)
  have "check_names outs = None"
    using check_names_None pl by blast
  moreover have "add_fields outs [] = Inr ([] @ outs)"
    using add_fields_plain_total [of outs "[]"] pl d by simp
  ultimately have s0: "new_struct outs = Inr outs"
    by (simp add: new_struct_def)
  have "\<forall>sp\<in>set specs. \<exists>f. below (Struct outs) (segments (fst sp)) = Some f"
  proof
    fix sp assume "sp \<in> set specs"
    then obtain i where i: "i < length specs" "specs ! i = sp"
      by (auto simp: in_set_conv_nth)
    with names have io: "i < length outs" by (metis length_map)
    then have mem: "outs ! i \<in> set outs" by simp
    from names i io have n: "fst (outs ! i) = fst sp" by (metis nth_map)
    from new_struct_holds [OF s0 mem] n have "holds outs (fst sp) (snd (outs ! i))" by simp
    moreover from outputs_loop_plain(2) [OF outs] mem have "output_shaped (snd (outs ! i))"
      by blast
    ultimately show "\<exists>f. below (Struct outs) (segments (fst sp)) = Some f"
      by (rule holds_found)
  qed
  from metadata_loop_total [OF this] obtain schema where
    "metadata_loop specs outs = Inr schema" by blast
  with outs s0 assms(3,4) show ?thesis
    by (auto simp: init_def global_constant_def)
qed

text \<open>The errors of the constructor.\<close>

lemma init_error_cases:
  assumes "init gnbr model inp specs st = Inl e"
  shows "(\<exists>pre field fs post. specs = pre @ (field, fs) # post \<and>
            (\<forall>sp\<in>set pre. accepted (snd sp)) \<and> \<not> accepted fs \<and>
            e = (if length (feature_names fs) \<noteq> length (feature_ids fs) then AssertionError
                 else TypeError (''Unsupported input type: '' @ feature_type fs))) \<or>
         ((\<forall>sp\<in>set specs. accepted (snd sp)) \<and> e \<noteq> AssertionError)"
proof (cases "\<forall>sp\<in>set specs. accepted (snd sp)")
  case True
  from outputs_loop_total [OF True, of gnbr "[]" st] obtain outs st' where
    outs: "outputs_loop gnbr specs [] st = Inr (outs, st')" by auto
  have "e \<noteq> AssertionError"
  proof (cases "new_struct outs")
    case (Inl e')
    with assms outs have "e = e'" by (simp add: init_def)
    with new_struct_error [OF Inl] show ?thesis by simp
  next
    case (Inr s0)
    show ?thesis
    proof (cases "metadata_loop specs s0")
      case (Inl e')
      with assms outs Inr have "e = e'" by (simp add: init_def)
      with metadata_loop_error [OF Inl] show ?thesis by auto
    next
      case (Inr schema)
      with assms outs \<open>new_struct outs = Inr s0\<close> show ?thesis
        by (auto simp: init_def global_constant_def split: option.splits)
    qed
  qed
  with True show ?thesis by blast
next
  case False
  from first_rejected [OF False] obtain pre field fs post where
    sp: "specs = pre @ (field, fs) # post" "\<forall>sp\<in>set pre. accepted (snd sp)" "\<not> accepted fs"
    by blast
  from init_first_rejected [OF sp(2,3), of gnbr model inp field post st] assms sp(1)
  have "e = (if length (feature_names fs) \<noteq> length (feature_ids fs) then AssertionError
             else TypeError (''Unsupported input type: '' @ feature_type fs))"
    by simp
  with sp show ?thesis by blast
qed

subsection \<open>Failure modes of the constructor\<close>

text \<open>
  C1, as stated, fails: an entry with the tag \<open>'FLOAT'\<close> whose names and ids differ in
  length makes the constructor raise, by the assertion of lines 47 and 48.
\<close>

theorem init_assertion_counterexample:
  "init numbered sample_model sample_record
     [(''a'', \<lparr>feature_type = ''FLOAT'', feature_names = [''x''], feature_ids = []\<rparr>)] 0
   = Inl AssertionError"
  by (simp add: init_def output_for_def)

text \<open>
  C1, amended. The constructor raises \<open>TypeError\<close> at the first entry whose tag is not one
  of \<open>'FLOAT'\<close>, \<open>'ID_LIST'\<close>, \<open>'ID_SCORE_LIST'\<close>, when that entry's names and ids have equal
  length and every earlier entry passes both checks. It raises no error when every
  entry has one of the three tags and names and ids of equal length, and the field
  names are distinct, not empty, not \<open>lengths\<close> and without \<open>:\<close> (the model's global
  constants defining \<open>ZERO\<close> and \<open>ZERO_RANGE\<close>). For such field names and constants the
  errors it can raise are the assertion's and the \<open>TypeError\<close> for the tag of some entry.
  Other field names can be refused by \<open>schema.Struct\<close>.
\<close>

theorem init_failure_modes:
  "((\<forall>sp\<in>set pre. length (feature_names (snd sp)) = length (feature_ids (snd sp)) \<and>
        feature_type (snd sp) \<in> {''FLOAT'', ''ID_LIST'', ''ID_SCORE_LIST''}) \<and>
    length (feature_names fs) = length (feature_ids fs) \<and>
    feature_type fs \<notin> {''FLOAT'', ''ID_LIST'', ''ID_SCORE_LIST''} \<longrightarrow>
      init gnbr model inp (pre @ (field, fs) # post) st
        = Inl (TypeError (''Unsupported input type: '' @ feature_type fs))) \<and>
   ((\<forall>sp\<in>set specs. length (feature_names (snd sp)) = length (feature_ids (snd sp)) \<and>
        feature_type (snd sp) \<in> {''FLOAT'', ''ID_LIST'', ''ID_SCORE_LIST''}) \<and>
    plain_names specs \<and>
    global_constants model ''ZERO'' \<noteq> None \<and> global_constants model ''ZERO_RANGE'' \<noteq> None \<longrightarrow>
      (\<exists>self st'. init gnbr model inp specs st = Inr (self, st'))) \<and>
   (init gnbr model inp specs st = Inl e \<and>
    plain_names specs \<and>
    global_constants model ''ZERO'' \<noteq> None \<and> global_constants model ''ZERO_RANGE'' \<noteq> None \<longrightarrow>
      e = AssertionError \<or>
      (\<exists>sp\<in>set specs. e = TypeError (''Unsupported input type: '' @ feature_type (snd sp))))"
proof (intro conjI impI)
  assume a: "(\<forall>sp\<in>set pre. length (feature_names (snd sp)) = length (feature_ids (snd sp)) \<and>
        feature_type (snd sp) \<in> {''FLOAT'', ''ID_LIST'', ''ID_SCORE_LIST''}) \<and>
    length (feature_names fs) = length (feature_ids fs) \<and>
    feature_type fs \<notin> {''FLOAT'', ''ID_LIST'', ''ID_SCORE_LIST''}"
  then have "\<forall>sp\<in>set pre. accepted (snd sp)" and "\<not> accepted fs"
    by (simp_all add: accepted_def)
  from init_first_rejected [OF this, of gnbr model inp field post st] a
  show "init gnbr model inp (pre @ (field, fs) # post) st
        = Inl (TypeError (''Unsupported input type: '' @ feature_type fs))"
    by simp
next
  assume a: "(\<forall>sp\<in>set specs. length (feature_names (snd sp)) = length (feature_ids (snd sp)) \<and>
        feature_type (snd sp) \<in> {''FLOAT'', ''ID_LIST'', ''ID_SCORE_LIST''}) \<and>
    plain_names specs \<and>
    global_constants model ''ZERO'' \<noteq> None \<and> global_constants model ''ZERO_RANGE'' \<noteq> None"
  then have "\<forall>sp\<in>set specs. accepted (snd sp)"
    by (simp add: accepted_def)
  from init_total [OF this, of model gnbr inp st] a
  show "\<exists>self st'. init gnbr model inp specs st = Inr (self, st')"
    by blast
next
  assume a: "init gnbr model inp specs st = Inl e \<and>
    plain_names specs \<and>
    global_constants model ''ZERO'' \<noteq> None \<and> global_constants model ''ZERO_RANGE'' \<noteq> None"
  have "\<not> (\<forall>sp\<in>set specs. accepted (snd sp))"
  proof
    assume "\<forall>sp\<in>set specs. accepted (snd sp)"
    from init_total [OF this, of model gnbr inp st] a show False by auto
  qed
  with a init_error_cases [of gnbr model inp specs st e]
  obtain pre field fs post where
    sp: "specs = pre @ (field, fs) # post"
      "e = (if length (feature_names fs) \<noteq> length (feature_ids fs) then AssertionError
            else TypeError (''Unsupported input type: '' @ feature_type fs))"
    by blast
  show "e = AssertionError \<or>
      (\<exists>sp\<in>set specs. e = TypeError (''Unsupported input type: '' @ feature_type (snd sp)))"
  proof (cases "length (feature_names fs) \<noteq> length (feature_ids fs)")
    case True
    with sp(2) show ?thesis by simp
  next
    case False
    with sp have "(field, fs) \<in> set specs"
      "e = TypeError (''Unsupported input type: '' @ feature_type (snd (field, fs)))"
      by simp_all
    then show ?thesis by blast
  qed
qed

theorem init_failure_modes_witness:
  "init numbered sample_model sample_record
     ([(''a'', \<lparr>feature_type = ''FLOAT'', feature_names = [''x''], feature_ids = [1]\<rparr>)] @
      (''b'', \<lparr>feature_type = ''BAD'', feature_names = [], feature_ids = []\<rparr>) # []) 0
     = Inl (TypeError ''Unsupported input type: BAD'') \<and>
   (\<exists>self st'. init numbered sample_model sample_record
     [(''a'', \<lparr>feature_type = ''FLOAT'', feature_names = [''x''], feature_ids = [1]\<rparr>)] 0
     = Inr (self, st')) \<and>
   (init numbered sample_model sample_record
     [(''b'', \<lparr>feature_type = ''BAD'', feature_names = [], feature_ids = []\<rparr>)] 0
     = Inl (TypeError ''Unsupported input type: BAD'') \<and>
    (\<exists>sp\<in>set [(''b'', \<lparr>feature_type = ''BAD'', feature_names = [], feature_ids = ([]::int list)\<rparr>)].
       TypeError ''Unsupported input type: BAD''
         = TypeError (''Unsupported input type: '' @ feature_type (snd sp))))"
proof -
  have b: "init numbered sample_model sample_record
     [(''b'', \<lparr>feature_type = ''BAD'', feature_names = [], feature_ids = []\<rparr>)] 0
     = Inl (TypeError ''Unsupported input type: BAD'')"
    by (simp add: init_def output_for_def)
  have c: "global_constants sample_model ''ZERO'' \<noteq> None \<and>
           global_constants sample_model ''ZERO_RANGE'' \<noteq> None"
    by (simp add: sample_model_def)
  have p: "plain_names [(''a'', \<lparr>feature_type = ''FLOAT'', feature_names = [''x''], feature_ids = [1]\<rparr>)]"
    "plain_names [(''b'', \<lparr>feature_type = ''BAD'', feature_names = [], feature_ids = []\<rparr>)]"
    by (simp_all add: plain_names_def)
  show ?thesis
    using b c p
      init_failure_modes [where pre = "[(''a'', \<lparr>feature_type = ''FLOAT'', feature_names = [''x''], feature_ids = [1]\<rparr>)]"
        and fs = "\<lparr>feature_type = ''BAD'', feature_names = [], feature_ids = []\<rparr>"
        and gnbr = numbered and model = sample_model and inp = sample_record
        and field = "''b''" and post = "[]" and st = 0 and specs = "[(''a'', \<lparr>feature_type = ''FLOAT'', feature_names = [''x''], feature_ids = [1]\<rparr>)]"]
      init_failure_modes [where gnbr = numbered and model = sample_model and inp = sample_record
        and st = 0
        and specs = "[(''b'', \<lparr>feature_type = ''BAD'', feature_names = [], feature_ids = []\<rparr>)]"
        and e = "TypeError ''Unsupported input type: BAD''"]
    by simp
qed

subsection \<open>The invariant on names and ids\<close>

text \<open>
  C2, as stated, fails: when an entry with an unknown tag comes before the entry whose
  names and ids differ in length, the constructor raises \<open>TypeError\<close>, not the
  assertion's error.
\<close>

theorem init_assertion_preempted_counterexample:
  "init numbered sample_model sample_record
     [(''a'', \<lparr>feature_type = ''BAD'', feature_names = [], feature_ids = []\<rparr>),
      (''b'', \<lparr>feature_type = ''FLOAT'', feature_names = [''x''], feature_ids = []\<rparr>)] 0
   = Inl (TypeError ''Unsupported input type: BAD'')"
  by (simp add: init_def output_for_def)

text \<open>
  C2, amended. When every entry has names and ids of equal length the assertion never
  fails. When some entry violates this, the constructor raises an error and produces
  no output schema; the error is the assertion's when every entry before the first
  violating one has one of the three tags.
\<close>

theorem names_ids_length_invariant:
  "((\<forall>sp\<in>set specs. length (feature_names (snd sp)) = length (feature_ids (snd sp))) \<longrightarrow>
      init gnbr model inp specs st \<noteq> Inl AssertionError) \<and>
   ((\<exists>sp\<in>set specs. length (feature_names (snd sp)) \<noteq> length (feature_ids (snd sp))) \<longrightarrow>
      (\<exists>e. init gnbr model inp specs st = Inl e)) \<and>
   ((\<forall>sp\<in>set pre. length (feature_names (snd sp)) = length (feature_ids (snd sp)) \<and>
        feature_type (snd sp) \<in> {''FLOAT'', ''ID_LIST'', ''ID_SCORE_LIST''}) \<and>
    length (feature_names fs) \<noteq> length (feature_ids fs) \<longrightarrow>
      init gnbr model inp (pre @ (field, fs) # post) st = Inl AssertionError)"
proof (intro conjI impI)
  assume eq: "\<forall>sp\<in>set specs. length (feature_names (snd sp)) = length (feature_ids (snd sp))"
  show "init gnbr model inp specs st \<noteq> Inl AssertionError"
  proof
    assume "init gnbr model inp specs st = Inl AssertionError"
    from init_error_cases [OF this] obtain pre field fs post where
      sp: "specs = pre @ (field, fs) # post"
        "AssertionError = (if length (feature_names fs) \<noteq> length (feature_ids fs)
           then AssertionError
           else TypeError (''Unsupported input type: '' @ feature_type fs))"
      by auto
    from sp(1) eq have "length (feature_names fs) = length (feature_ids fs)" by simp
    with sp(2) show False by simp
  qed
next
  assume "\<exists>sp\<in>set specs. length (feature_names (snd sp)) \<noteq> length (feature_ids (snd sp))"
  then have "\<not> (\<forall>sp\<in>set specs. accepted (snd sp))"
    by (auto simp: accepted_def)
  from first_rejected [OF this] obtain pre field fs post where
    sp: "specs = pre @ (field, fs) # post" "\<forall>sp\<in>set pre. accepted (snd sp)" "\<not> accepted fs"
    by blast
  from init_first_rejected [OF sp(2,3), of gnbr model inp field post st] sp(1)
  show "\<exists>e. init gnbr model inp specs st = Inl e" by simp
next
  assume a: "(\<forall>sp\<in>set pre. length (feature_names (snd sp)) = length (feature_ids (snd sp)) \<and>
        feature_type (snd sp) \<in> {''FLOAT'', ''ID_LIST'', ''ID_SCORE_LIST''}) \<and>
    length (feature_names fs) \<noteq> length (feature_ids fs)"
  then have "\<forall>sp\<in>set pre. accepted (snd sp)" and "\<not> accepted fs"
    by (simp_all add: accepted_def)
  from init_first_rejected [OF this, of gnbr model inp field post st] a
  show "init gnbr model inp (pre @ (field, fs) # post) st = Inl AssertionError"
    by simp
qed

theorem names_ids_length_invariant_witness:
  "init numbered sample_model sample_record
     [(''a'', \<lparr>feature_type = ''FLOAT'', feature_names = [''x''], feature_ids = [1]\<rparr>)] 0
     \<noteq> Inl AssertionError \<and>
   (\<exists>e. init numbered sample_model sample_record
     [(''a'', \<lparr>feature_type = ''FLOAT'', feature_names = [''x''], feature_ids = [1]\<rparr>),
      (''b'', \<lparr>feature_type = ''ID_LIST'', feature_names = [''y''], feature_ids = []\<rparr>)] 0 = Inl e) \<and>
   init numbered sample_model sample_record
     ([(''a'', \<lparr>feature_type = ''FLOAT'', feature_names = [''x''], feature_ids = [1]\<rparr>)] @
      (''b'', \<lparr>feature_type = ''ID_LIST'', feature_names = [''y''], feature_ids = []\<rparr>) # []) 0
     = Inl AssertionError"
  using
    names_ids_length_invariant [where specs = "[(''a'', \<lparr>feature_type = ''FLOAT'', feature_names = [''x''], feature_ids = [1]\<rparr>)]"
      and gnbr = numbered and model = sample_model and inp = sample_record and st = 0
      and pre = "[(''a'', \<lparr>feature_type = ''FLOAT'', feature_names = [''x''], feature_ids = [1]\<rparr>)]"
      and fs = "\<lparr>feature_type = ''ID_LIST'', feature_names = [''y''], feature_ids = []\<rparr>"
      and field = "''b''" and post = "[]"]
    names_ids_length_invariant [where specs =
        "[(''a'', \<lparr>feature_type = ''FLOAT'', feature_names = [''x''], feature_ids = [1]\<rparr>),
          (''b'', \<lparr>feature_type = ''ID_LIST'', feature_names = [''y''], feature_ids = []\<rparr>)]"
      and gnbr = numbered and model = sample_model and inp = sample_record and st = 0]
  by simp

lemma sample_layer:
  "\<exists>self st'. init numbered sample_model sample_record sample_specs 0 = Inr (self, st')"
  using init_total [of sample_specs sample_model numbered sample_record 0]
  by (simp add: sample_specs_def sample_model_def accepted_def plain_names_def)

lemma sample_plain: "\<forall>sp\<in>set sample_specs. CHR '':'' \<notin> set (fst sp)"
  by (simp add: sample_specs_def)

subsection \<open>The tags that the constructor accepts\<close>

text \<open>
  C8. Whenever the constructor succeeds, every tag is one of \<open>'FLOAT'\<close>, \<open>'ID_LIST'\<close>,
  \<open>'ID_SCORE_LIST'\<close>; and it succeeds for every input with such tags that is valid
  otherwise: names and ids of equal length, field names that \<open>schema.Struct\<close> takes as
  they are, a model that defines the two constants. So these three tags are the ones
  accepted. The set is a strict superset of \<open>_known_types\<close>: the tag \<open>'ID_SCORE_LIST'\<close> is
  accepted and is not in that list, so the list does not decide what is accepted.
\<close>

theorem accepted_type_tags:
  "((\<exists>self st'. init gnbr model inp specs st = Inr (self, st')) \<longrightarrow>
      (\<forall>sp\<in>set specs. feature_type (snd sp) \<in> {''FLOAT'', ''ID_LIST'', ''ID_SCORE_LIST''})) \<and>
   ((\<forall>sp\<in>set specs. length (feature_names (snd sp)) = length (feature_ids (snd sp))) \<and>
    plain_names specs \<and>
    global_constants model ''ZERO'' \<noteq> None \<and> global_constants model ''ZERO_RANGE'' \<noteq> None \<longrightarrow>
      ((\<exists>self st'. init gnbr model inp specs st = Inr (self, st')) \<longleftrightarrow>
       (\<forall>sp\<in>set specs. feature_type (snd sp) \<in> {''FLOAT'', ''ID_LIST'', ''ID_SCORE_LIST''}))) \<and>
   set known_types \<subset> {''FLOAT'', ''ID_LIST'', ''ID_SCORE_LIST''} \<and>
   ''ID_SCORE_LIST'' \<notin> set known_types"
proof (intro conjI impI)
  assume "\<exists>self st'. init gnbr model inp specs st = Inr (self, st')"
  then obtain self st' where "init gnbr model inp specs st = Inr (self, st')" by blast
  from init_Inr_accepted [OF this]
  show "\<forall>sp\<in>set specs. feature_type (snd sp) \<in> {''FLOAT'', ''ID_LIST'', ''ID_SCORE_LIST''}"
    by (simp add: accepted_def)
next
  assume a: "(\<forall>sp\<in>set specs. length (feature_names (snd sp)) = length (feature_ids (snd sp))) \<and>
    plain_names specs \<and>
    global_constants model ''ZERO'' \<noteq> None \<and> global_constants model ''ZERO_RANGE'' \<noteq> None"
  show "(\<exists>self st'. init gnbr model inp specs st = Inr (self, st')) \<longleftrightarrow>
       (\<forall>sp\<in>set specs. feature_type (snd sp) \<in> {''FLOAT'', ''ID_LIST'', ''ID_SCORE_LIST''})"
  proof
    assume "\<exists>self st'. init gnbr model inp specs st = Inr (self, st')"
    then obtain self st' where "init gnbr model inp specs st = Inr (self, st')" by blast
    from init_Inr_accepted [OF this]
    show "\<forall>sp\<in>set specs. feature_type (snd sp) \<in> {''FLOAT'', ''ID_LIST'', ''ID_SCORE_LIST''}"
      by (simp add: accepted_def)
  next
    assume "\<forall>sp\<in>set specs. feature_type (snd sp) \<in> {''FLOAT'', ''ID_LIST'', ''ID_SCORE_LIST''}"
    with a have "\<forall>sp\<in>set specs. accepted (snd sp)"
      by (simp add: accepted_def)
    from init_total [OF this, of model gnbr inp st] a
    show "\<exists>self st'. init gnbr model inp specs st = Inr (self, st')" by blast
  qed
next
  show "set known_types \<subset> {''FLOAT'', ''ID_LIST'', ''ID_SCORE_LIST''}"
  proof (rule psubsetI)
    show "set known_types \<subseteq> {''FLOAT'', ''ID_LIST'', ''ID_SCORE_LIST''}"
      by (simp add: known_types_def)
  next
    have a: "''ID_SCORE_LIST'' \<notin> set known_types"
      by (simp add: known_types_def)
    have b: "''ID_SCORE_LIST'' \<in> {''FLOAT'', ''ID_LIST'', ''ID_SCORE_LIST''}"
      by simp
    show "set known_types \<noteq> {''FLOAT'', ''ID_LIST'', ''ID_SCORE_LIST''}"
    proof
      assume "set known_types = {''FLOAT'', ''ID_LIST'', ''ID_SCORE_LIST''}"
      then have "''ID_SCORE_LIST'' \<in> set known_types"
        using b by (rule ssubst)
      with a show False by (rule notE)
    qed
  qed
next
  show "''ID_SCORE_LIST'' \<notin> set known_types"
    by (simp add: known_types_def)
qed

theorem accepted_type_tags_witness:
  "(\<exists>self st'. init numbered sample_model sample_record
      [(''c'', \<lparr>feature_type = ''ID_SCORE_LIST'', feature_names = [''u''], feature_ids = [3]\<rparr>)] 0
        = Inr (self, st')) \<and>
   \<not> (\<exists>self st'. init numbered sample_model sample_record
      [(''c'', \<lparr>feature_type = ''ID_SCORE'', feature_names = [''u''], feature_ids = [3]\<rparr>)] 0
        = Inr (self, st'))"
  using
    accepted_type_tags [where model = sample_model and gnbr = numbered and inp = sample_record
      and st = 0 and specs =
        "[(''c'', \<lparr>feature_type = ''ID_SCORE_LIST'', feature_names = [''u''], feature_ids = [3]\<rparr>)]"]
    accepted_type_tags [where model = sample_model and gnbr = numbered and inp = sample_record
      and st = 0 and specs =
        "[(''c'', \<lparr>feature_type = ''ID_SCORE'', feature_names = [''u''], feature_ids = [3]\<rparr>)]"]
  by (simp add: sample_model_def plain_names_def)

subsection \<open>The output schema\<close>

text \<open>The field of entry \<open>i\<close>, found in the output schema under the entry's name.\<close>

lemma init_float_field:
  assumes "init gnbr model inp specs st = Inr (self, st')" and "i < length specs"
    and "feature_type (snd (specs ! i)) = ''FLOAT''"
  shows "\<exists>b m. getitem (output_schema self) (fst (specs ! i)) =
           Inr (Scalar float32 [length (feature_ids (snd (specs ! i)))] b m)"
proof -
  from init_entry [OF assms(1,2)] obtain s1 s2 g where
    o: "output_for gnbr (fst (specs ! i)) (snd (specs ! i)) s1 = Inr ((fst (specs ! i), g), s2)"
    and h: "\<And>q x. below g q = Some x \<Longrightarrow> \<not> is_struct x \<Longrightarrow>
        \<exists>x'. below (Struct (output_schema self)) (segments (fst (specs ! i)) @ q) = Some x' \<and>
              without_metadata x' = without_metadata x"
    by blast
  from output_for_Inr(2) [OF o assms(3)] obtain b where
    g: "g = Scalar float32 [length (feature_ids (snd (specs ! i)))] b None"
    by auto
  from h [of "[]" g] g obtain x' where
    x': "below (Struct (output_schema self)) (segments (fst (specs ! i))) = Some x'"
      "without_metadata x' = Scalar float32 [length (feature_ids (snd (specs ! i)))] b None"
    by auto
  from without_metadata_Scalar [OF x'(2)] x'(1) show ?thesis
    by (auto simp: getitem_below)
qed

lemma init_child:
  assumes "\<And>q x. below g q = Some x \<Longrightarrow> \<not> is_struct x \<Longrightarrow>
        \<exists>x'. below (Struct s) (p @ q) = Some x' \<and> without_metadata x' = without_metadata x"
    and "below g [k] = Some (Scalar t sh b None)"
  shows "\<exists>c m. below (Struct s) p = Some (Struct c) \<and> map_of c k = Some (Scalar t sh b m)"
proof -
  from assms(1) [OF assms(2)] obtain x' where
    x': "below (Struct s) (p @ [k]) = Some x'" "without_metadata x' = Scalar t sh b None"
    by auto
  from without_metadata_Scalar [OF x'(2)] obtain m where "x' = Scalar t sh b m" by blast
  with below_snoc [OF x'(1)] show ?thesis by blast
qed

lemma init_id_list_field:
  assumes "init gnbr model inp specs st = Inr (self, st')" and "i < length specs"
    and "feature_type (snd (specs ! i)) = ''ID_LIST''"
  shows "\<exists>c r v m1 m2. getitem (output_schema self) (fst (specs ! i)) = Inr (Struct c) \<and>
           map_of c ''ranges'' =
             Some (Scalar int32 [length (feature_ids (snd (specs ! i))), 2] r m1) \<and>
           map_of c ''values'' = Some (Scalar int64 [] v m2)"
proof -
  from init_entry [OF assms(1,2)] obtain s1 s2 g where
    o: "output_for gnbr (fst (specs ! i)) (snd (specs ! i)) s1 = Inr ((fst (specs ! i), g), s2)"
    and h: "\<And>q x. below g q = Some x \<Longrightarrow> \<not> is_struct x \<Longrightarrow>
        \<exists>x'. below (Struct (output_schema self)) (segments (fst (specs ! i)) @ q) = Some x' \<and>
              without_metadata x' = without_metadata x"
    by blast
  from output_for_Inr(3) [OF o assms(3)] obtain r v where
    g: "g = Struct [(''ranges'', Scalar int32 [length (feature_ids (snd (specs ! i))), 2] r None),
                    (''values'', Scalar int64 [] v None)]"
    by auto
  have "below g [''ranges''] =
      Some (Scalar int32 [length (feature_ids (snd (specs ! i))), 2] r None)"
    "below g [''values''] = Some (Scalar int64 [] v None)"
    by (simp_all add: g)
  from init_child [OF h this(1)] init_child [OF h this(2)]
  show ?thesis by (auto simp: getitem_below)
qed

lemma init_id_score_list_field:
  assumes "init gnbr model inp specs st = Inr (self, st')" and "i < length specs"
    and "feature_type (snd (specs ! i)) = ''ID_SCORE_LIST''"
  shows "\<exists>c r d s m1 m2 m3. getitem (output_schema self) (fst (specs ! i)) = Inr (Struct c) \<and>
           map_of c ''ranges'' =
             Some (Scalar int32 [length (feature_ids (snd (specs ! i))), 2] r m1) \<and>
           map_of c ''ids'' = Some (Scalar int64 [] d m2) \<and>
           map_of c ''scores'' = Some (Scalar float32 [] s m3)"
proof -
  from init_entry [OF assms(1,2)] obtain s1 s2 g where
    o: "output_for gnbr (fst (specs ! i)) (snd (specs ! i)) s1 = Inr ((fst (specs ! i), g), s2)"
    and h: "\<And>q x. below g q = Some x \<Longrightarrow> \<not> is_struct x \<Longrightarrow>
        \<exists>x'. below (Struct (output_schema self)) (segments (fst (specs ! i)) @ q) = Some x' \<and>
              without_metadata x' = without_metadata x"
    by blast
  from output_for_Inr(4) [OF o assms(3)] obtain r d s where
    g: "g = Struct [(''ranges'', Scalar int32 [length (feature_ids (snd (specs ! i))), 2] r None),
                    (''ids'', Scalar int64 [] d None),
                    (''scores'', Scalar float32 [] s None)]"
    by auto
  have "below g [''ranges''] =
      Some (Scalar int32 [length (feature_ids (snd (specs ! i))), 2] r None)"
    "below g [''ids''] = Some (Scalar int64 [] d None)"
    "below g [''scores''] = Some (Scalar float32 [] s None)"
    by (simp_all add: g)
  from init_child [OF h this(1)] init_child [OF h this(2)] init_child [OF h this(3)]
  show ?thesis by (auto simp: getitem_below)
qed

lemma init_found:
  assumes "init gnbr model inp specs st = Inr (self, st')" and "sp \<in> set specs"
  shows "\<exists>f. getitem (output_schema self) (fst sp) = Inr f"
proof -
  from assms(2) obtain i where i: "i < length specs" "specs ! i = sp"
    by (auto simp: in_set_conv_nth)
  from init_Inr_accepted [OF assms] consider "feature_type (snd sp) = ''FLOAT''"
    | "feature_type (snd sp) = ''ID_LIST''" | "feature_type (snd sp) = ''ID_SCORE_LIST''"
    by (auto simp: accepted_def)
  then show ?thesis
  proof cases
    case 1
    with init_float_field [OF assms(1) i(1)] i(2) show ?thesis by auto
  next
    case 2
    with init_id_list_field [OF assms(1) i(1)] i(2) show ?thesis by auto
  next
    case 3
    with init_id_score_list_field [OF assms(1) i(1)] i(2) show ?thesis by auto
  qed
qed

text \<open>
  C3. After a successful construction, the output schema gives, under the field name
  of an entry with the tag \<open>'FLOAT'\<close>, a scalar of type float32 and shape
  \<open>(len(feature_ids),)\<close>; when no field name of the input has the separator \<open>:\<close>, this
  scalar is, with the entry's name, the field at the entry's position.
\<close>

theorem float_output_schema:
  assumes "init gnbr model inp specs st = Inr (self, st')"
    and "i < length specs" and "feature_type (snd (specs ! i)) = ''FLOAT''"
  shows "\<exists>b m. getitem (output_schema self) (fst (specs ! i)) =
            Inr (Scalar float32 [length (feature_ids (snd (specs ! i)))] b m) \<and>
          ((\<forall>sp\<in>set specs. CHR '':'' \<notin> set (fst sp)) \<longrightarrow>
             output_schema self ! i =
               (fst (specs ! i), Scalar float32 [length (feature_ids (snd (specs ! i)))] b m))"
proof -
  from init_float_field [OF assms] obtain b m where
    g: "getitem (output_schema self) (fst (specs ! i)) =
          Inr (Scalar float32 [length (feature_ids (snd (specs ! i)))] b m)"
    by blast
  have "output_schema self ! i =
      (fst (specs ! i), Scalar float32 [length (feature_ids (snd (specs ! i)))] b m)"
    if plain: "\<forall>sp\<in>set specs. CHR '':'' \<notin> set (fst sp)"
  proof -
    from init_getitem [OF assms(1) plain assms(2)] g
    have "snd (output_schema self ! i) = Scalar float32 [length (feature_ids (snd (specs ! i)))] b m"
      by simp
    moreover from init_plain(3) [OF assms(1) plain assms(2)]
    have "fst (output_schema self ! i) = fst (specs ! i)" by blast
    ultimately show ?thesis by (metis prod.collapse)
  qed
  with g show ?thesis by blast
qed

theorem float_output_schema_witness:
  "\<exists>self st'. init numbered sample_model sample_record sample_specs 0 = Inr (self, st') \<and>
     (\<exists>b m. getitem (output_schema self) ''a'' = Inr (Scalar float32 [2] b m) \<and>
            output_schema self ! 0 = (''a'', Scalar float32 [2] b m))"
proof -
  from sample_layer obtain self st' where
    i: "init numbered sample_model sample_record sample_specs 0 = Inr (self, st')"
    by blast
  from float_output_schema [OF i, of 0] sample_plain
  have "\<exists>b m. getitem (output_schema self) ''a'' = Inr (Scalar float32 [2] b m) \<and>
            output_schema self ! 0 = (''a'', Scalar float32 [2] b m)"
    by (simp add: sample_specs_def numeral_2_eq_2 numeral_3_eq_3)
  with i show ?thesis by blast
qed







subsection \<open>\<open>get_metadata\<close>\<close>

lemma set_cardinality_snoc:
  "set_cardinality (metadata @ [(d, bt)]) = metadata @ [(d(''cardinality'' \<mapsto> MInt 1), bt)]"
  by (simp add: set_cardinality_def)

lemma get_metadata_loop_Inr:
  "get_metadata_loop self specs acc = Inr md \<Longrightarrow>
   \<exists>new. md = acc @ new \<and>
     list_all2 (\<lambda>sp e. \<exists>f. getitem (output_schema self) (fst sp) = Inr f \<and>
                  e = (metadata_dict (snd sp), field_blobs f, field_types f)) specs new"
proof (induction specs arbitrary: acc)
  case Nil
  then show ?case by simp
next
  case (Cons sp specs)
  obtain field fs where sp: "sp = (field, fs)" by (cases sp)
  from Cons.prems sp obtain f where
    f: "getitem (output_schema self) field = Inr f"
    by (cases "getitem (output_schema self) field") simp_all
  let ?d = "[''type'' \<mapsto> MType (feature_type fs), ''names'' \<mapsto> MNames (feature_names fs),
             ''ids'' \<mapsto> MIds (feature_ids fs)]"
  let ?e = "(?d, field_blobs f, field_types f)"
  have step: "(if feature_type fs = ''FLOAT'' then set_cardinality (acc @ [?e]) else acc @ [?e])
      = acc @ [(metadata_dict fs, field_blobs f, field_types f)]"
  proof (cases "feature_type fs = ''FLOAT''")
    case True
    then show ?thesis
      by (simp only: metadata_dict_def Let_def set_cardinality_snoc if_True simp_thms)
  next
    case False
    then show ?thesis
      by (simp only: metadata_dict_def Let_def if_False simp_thms)
  qed
  have "get_metadata_loop self (sp # specs) acc =
      get_metadata_loop self specs
        (if feature_type fs = ''FLOAT'' then set_cardinality (acc @ [?e]) else acc @ [?e])"
    unfolding sp get_metadata_loop.simps f Let_def by (simp only: sum.case)
  with Cons.prems have
    rest: "get_metadata_loop self specs
             (acc @ [(metadata_dict fs, field_blobs f, field_types f)]) = Inr md"
    by (simp only: step)
  from Cons.IH [OF rest] obtain new where
    new: "md = (acc @ [(metadata_dict fs, field_blobs f, field_types f)]) @ new"
      "list_all2 (\<lambda>sp e. \<exists>f. getitem (output_schema self) (fst sp) = Inr f \<and>
                  e = (metadata_dict (snd sp), field_blobs f, field_types f)) specs new"
    by blast
  have "list_all2 (\<lambda>sp e. \<exists>f. getitem (output_schema self) (fst sp) = Inr f \<and>
                  e = (metadata_dict (snd sp), field_blobs f, field_types f))
          (sp # specs) ((metadata_dict fs, field_blobs f, field_types f) # new)"
    using new(2) f sp by auto
  with new(1) show ?case
    by (intro exI [of _ "(metadata_dict fs, field_blobs f, field_types f) # new"]) simp
qed

lemma get_metadata_loop_total:
  "\<forall>sp\<in>set specs. \<exists>f. getitem (output_schema self) (fst sp) = Inr f \<Longrightarrow>
   \<exists>md. get_metadata_loop self specs acc = Inr md"
proof (induction specs arbitrary: acc)
  case Nil
  then show ?case by simp
next
  case (Cons sp specs)
  obtain field fs where sp: "sp = (field, fs)" by (cases sp)
  with Cons.prems obtain f where f: "getitem (output_schema self) field = Inr f"
    by auto
  from Cons.prems have "\<forall>sp\<in>set specs. \<exists>f. getitem (output_schema self) (fst sp) = Inr f"
    by simp
  from Cons.IH [OF this] f sp show ?case by (simp add: Let_def)
qed

lemma get_metadata_nth:
  assumes "get_metadata self = Inr md"
  shows "length md = length (input_specs self)"
    and "i < length (input_specs self) \<Longrightarrow>
         \<exists>f. getitem (output_schema self) (fst (input_specs self ! i)) = Inr f \<and>
             md ! i = (metadata_dict (snd (input_specs self ! i)), field_blobs f, field_types f)"
proof -
  from assms get_metadata_loop_Inr [of self "input_specs self" "[]" md]
  have all: "list_all2 (\<lambda>sp e. \<exists>f. getitem (output_schema self) (fst sp) = Inr f \<and>
                  e = (metadata_dict (snd sp), field_blobs f, field_types f)) (input_specs self) md"
    by (simp add: get_metadata_def)
  then show "length md = length (input_specs self)"
    by (simp add: list_all2_lengthD)
  show "\<exists>f. getitem (output_schema self) (fst (input_specs self ! i)) = Inr f \<and>
             md ! i = (metadata_dict (snd (input_specs self ! i)), field_blobs f, field_types f)"
    if "i < length (input_specs self)"
    using list_all2_nthD [OF all that] by simp
qed

lemma init_get_metadata:
  assumes "init gnbr model inp specs st = Inr (self, st')"
  shows "\<exists>md. get_metadata self = Inr md"
proof -
  have "\<forall>sp\<in>set specs. \<exists>f. getitem (output_schema self) (fst sp) = Inr f"
    using init_found [OF assms] by blast
  from get_metadata_loop_total [OF this] init_Inr(2) [OF assms]
  show ?thesis by (simp add: get_metadata_def)
qed

text \<open>
  C10. In the list that \<open>get_metadata\<close> returns, the dictionary of entry \<open>i\<close> has the key
  \<open>'cardinality'\<close> exactly when the tag of the spec at position \<open>i\<close> is \<open>'FLOAT'\<close>, and
  the value under it is then 1.
\<close>

theorem cardinality_iff_float:
  assumes "get_metadata self = Inr md" and "i < length (input_specs self)"
  shows "(''cardinality'' \<in> dom (fst (md ! i)) \<longleftrightarrow>
            feature_type (snd (input_specs self ! i)) = ''FLOAT'') \<and>
         fst (md ! i) ''cardinality'' =
           (if feature_type (snd (input_specs self ! i)) = ''FLOAT'' then Some (MInt 1) else None)"
proof -
  from get_metadata_nth(2) [OF assms] obtain f where
    "md ! i = (metadata_dict (snd (input_specs self ! i)), field_blobs f, field_types f)"
    by blast
  then show ?thesis
    by (simp add: metadata_dict_def dom_def)
qed

theorem cardinality_iff_float_witness:
  "\<exists>self st' md. init numbered sample_model sample_record sample_specs 0 = Inr (self, st') \<and>
     get_metadata self = Inr md \<and>
     fst (md ! 0) ''cardinality'' = Some (MInt 1) \<and>
     ''cardinality'' \<notin> dom (fst (md ! 1)) \<and>
     ''cardinality'' \<notin> dom (fst (md ! 2))"
proof -
  from sample_layer obtain self st' where
    i: "init numbered sample_model sample_record sample_specs 0 = Inr (self, st')"
    by blast
  from init_get_metadata [OF i] obtain md where md: "get_metadata self = Inr md"
    by blast
  have s: "input_specs self = sample_specs"
    using init_Inr(2) [OF i] .
  from cardinality_iff_float [OF md, of 0] cardinality_iff_float [OF md, of 1]
    cardinality_iff_float [OF md, of 2] s
  have "fst (md ! 0) ''cardinality'' = Some (MInt 1) \<and>
     ''cardinality'' \<notin> dom (fst (md ! 1)) \<and>
     ''cardinality'' \<notin> dom (fst (md ! 2))"
    by (simp add: sample_specs_def)
  with i md show ?thesis by blast
qed

lemma metadata_dict_keys:
  "metadata_dict fs ''type'' = Some (MType (feature_type fs))"
  "metadata_dict fs ''names'' = Some (MNames (feature_names fs))"
  "metadata_dict fs ''ids'' = Some (MIds (feature_ids fs))"
  by (simp_all add: metadata_dict_def Let_def)

text \<open>
  C7. For a constructed layer \<open>get_metadata\<close> returns, without error, one entry per entry
  of \<open>input_specs\<close>; entry \<open>i\<close> holds the tag of spec \<open>i\<close> under \<open>'type'\<close>, its names under
  \<open>'names'\<close> and its ids under \<open>'ids'\<close>, and the blobs and the field types of the field
  that the output schema has under the name of spec \<open>i\<close>; when no field name has the
  separator \<open>:\<close>, that is the field at position \<open>i\<close> of the output schema.
\<close>

theorem get_metadata_entries:
  assumes "init gnbr model inp specs st = Inr (self, st')"
  shows "\<exists>md. get_metadata self = Inr md \<and> length md = length specs \<and>
     (\<forall>i<length specs. \<exists>d f.
         getitem (output_schema self) (fst (specs ! i)) = Inr f \<and>
         md ! i = (d, field_blobs f, field_types f) \<and>
         d ''type'' = Some (MType (feature_type (snd (specs ! i)))) \<and>
         d ''names'' = Some (MNames (feature_names (snd (specs ! i)))) \<and>
         d ''ids'' = Some (MIds (feature_ids (snd (specs ! i)))) \<and>
         ((\<forall>sp\<in>set specs. CHR '':'' \<notin> set (fst sp)) \<longrightarrow> f = snd (output_schema self ! i)))"
proof -
  from init_get_metadata [OF assms] obtain md where md: "get_metadata self = Inr md"
    by blast
  have s: "input_specs self = specs"
    using init_Inr(2) [OF assms] .
  have "\<exists>d f.
         getitem (output_schema self) (fst (specs ! i)) = Inr f \<and>
         md ! i = (d, field_blobs f, field_types f) \<and>
         d ''type'' = Some (MType (feature_type (snd (specs ! i)))) \<and>
         d ''names'' = Some (MNames (feature_names (snd (specs ! i)))) \<and>
         d ''ids'' = Some (MIds (feature_ids (snd (specs ! i)))) \<and>
         ((\<forall>sp\<in>set specs. CHR '':'' \<notin> set (fst sp)) \<longrightarrow> f = snd (output_schema self ! i))"
    if i: "i < length specs" for i
  proof -
    from get_metadata_nth(2) [OF md, of i] i s obtain f where
      f: "getitem (output_schema self) (fst (specs ! i)) = Inr f"
        "md ! i = (metadata_dict (snd (specs ! i)), field_blobs f, field_types f)"
      by auto
    have "(\<forall>sp\<in>set specs. CHR '':'' \<notin> set (fst sp)) \<longrightarrow> f = snd (output_schema self ! i)"
      using init_getitem [OF assms _ i] f(1) by simp
    with f metadata_dict_keys [of "snd (specs ! i)"] show ?thesis by blast
  qed
  with md get_metadata_nth(1) [OF md] s show ?thesis by simp
qed

theorem get_metadata_entries_witness:
  "\<exists>self st' md. init numbered sample_model sample_record sample_specs 0 = Inr (self, st') \<and>
     get_metadata self = Inr md \<and> length md = 3 \<and>
     (\<exists>d. md ! 1 = (d, field_blobs (snd (output_schema self ! 1)),
                       field_types (snd (output_schema self ! 1))) \<and>
          d ''type'' = Some (MType ''ID_LIST'') \<and>
          d ''names'' = Some (MNames [''z'']) \<and>
          d ''ids'' = Some (MIds [7]))"
proof -
  from sample_layer obtain self st' where
    i: "init numbered sample_model sample_record sample_specs 0 = Inr (self, st')"
    by blast
  from get_metadata_entries [OF i] obtain md where
    md: "get_metadata self = Inr md" "length md = length sample_specs" and
    all: "\<forall>i<length sample_specs. \<exists>d f.
         getitem (output_schema self) (fst (sample_specs ! i)) = Inr f \<and>
         md ! i = (d, field_blobs f, field_types f) \<and>
         d ''type'' = Some (MType (feature_type (snd (sample_specs ! i)))) \<and>
         d ''names'' = Some (MNames (feature_names (snd (sample_specs ! i)))) \<and>
         d ''ids'' = Some (MIds (feature_ids (snd (sample_specs ! i)))) \<and>
         ((\<forall>sp\<in>set sample_specs. CHR '':'' \<notin> set (fst sp)) \<longrightarrow> f = snd (output_schema self ! i))"
    by blast
  have l: "length sample_specs = 3" "(1::nat) < length sample_specs"
    "\<forall>sp\<in>set sample_specs. CHR '':'' \<notin> set (fst sp)"
    by (simp_all add: sample_specs_def)
  have e: "sample_specs ! 1 =
      (''b'', \<lparr>feature_type = ''ID_LIST'', feature_names = [''z''], feature_ids = [7]\<rparr>)"
    by (simp add: sample_specs_def)
  from all [rule_format, OF l(2)] have "\<exists>d f.
         getitem (output_schema self) (fst (sample_specs ! 1)) = Inr f \<and>
         md ! 1 = (d, field_blobs f, field_types f) \<and>
         d ''type'' = Some (MType (feature_type (snd (sample_specs ! 1)))) \<and>
         d ''names'' = Some (MNames (feature_names (snd (sample_specs ! 1)))) \<and>
         d ''ids'' = Some (MIds (feature_ids (snd (sample_specs ! 1)))) \<and>
         ((\<forall>sp\<in>set sample_specs. CHR '':'' \<notin> set (fst sp)) \<longrightarrow> f = snd (output_schema self ! 1))"
    .
  with l(3) e have "\<exists>d. md ! 1 = (d, field_blobs (snd (output_schema self ! 1)),
                       field_types (snd (output_schema self ! 1))) \<and>
          d ''type'' = Some (MType ''ID_LIST'') \<and>
          d ''names'' = Some (MNames [''z'']) \<and>
          d ''ids'' = Some (MIds [7])"
    by auto
  with i md l(1) show ?thesis by auto
qed

subsection \<open>Order\<close>




subsection \<open>\<open>add_ops\<close>\<close>

lemma ops_emit: "ops (emit operator n) = ops n @ [operator]"
  by (simp add: emit_def)

lemma add_ops_for_Inr:
  assumes "add_ops_for nsb self field fs n = Inr n'" and "accepted fs"
  shows "map kind_of (ops n') = map kind_of (ops n) @ calls_of fs"
proof -
  from assms(2) consider "feature_type fs = ''FLOAT''" | "feature_type fs = ''ID_LIST''"
    | "feature_type fs = ''ID_SCORE_LIST''"
    by (auto simp: accepted_def)
  then show ?thesis
  proof cases
    case 1
    with assms(1) show ?thesis
      by (auto simp: add_ops_for_def calls_of_def ops_emit Let_def split: sum.splits)
  next
    case 2
    with assms(1) show ?thesis
      by (auto simp: add_ops_for_def calls_of_def ops_emit Let_def split: sum.splits prod.splits)
  next
    case 3
    with assms(1) show ?thesis
      by (auto simp: add_ops_for_def calls_of_def ops_emit Let_def split: sum.splits prod.splits)
  qed
qed

lemma add_ops_for_total:
  assumes "init gnbr model inp specs st = Inr (self, st')" and "i < length specs"
  shows "\<exists>n'. add_ops_for nsb self (fst (specs ! i)) (snd (specs ! i)) n = Inr n'"
proof -
  let ?field = "fst (specs ! i)" and ?fs = "snd (specs ! i)"
  from assms(2) have "specs ! i \<in> set specs" by simp
  from init_Inr_accepted [OF assms(1) this]
  consider "feature_type ?fs = ''FLOAT''" | "feature_type ?fs = ''ID_LIST''"
    | "feature_type ?fs = ''ID_SCORE_LIST''"
    by (auto simp: accepted_def)
  then show ?thesis
  proof cases
    case 1
    from init_float_field [OF assms 1] obtain b where
      "output_blob self ?field = Inr b"
      by (auto simp: output_blob_def)
    with 1 show ?thesis
      by (simp add: add_ops_for_def Let_def)
  next
    case 2
    then have t: "feature_type ?fs \<noteq> ''FLOAT''" by simp
    from init_id_list_field [OF assms 2] obtain r v where
      c: "output_child_blob self ?field ''ranges'' = Inr r"
        "output_child_blob self ?field ''values'' = Inr v"
      by (auto simp: output_child_blob_def)
    obtain b nm where "nsb ''id_list_ranges'' (names n) = (b, nm)"
      by (cases "nsb ''id_list_ranges'' (names n)")
    with 2 t c show ?thesis
      by (simp add: add_ops_for_def Let_def)
  next
    case 3
    then have t: "feature_type ?fs \<noteq> ''FLOAT''" "feature_type ?fs \<noteq> ''ID_LIST''"
      by simp_all
    from init_id_score_list_field [OF assms 3] obtain r d s where
      c: "output_child_blob self ?field ''ranges'' = Inr r"
        "output_child_blob self ?field ''ids'' = Inr d"
        "output_child_blob self ?field ''scores'' = Inr s"
      by (auto simp: output_child_blob_def)
    obtain b nm where "nsb ''id_score_list_ranges'' (names n) = (b, nm)"
      by (cases "nsb ''id_score_list_ranges'' (names n)")
    with 3 t c show ?thesis
      by (simp add: add_ops_for_def Let_def)
  qed
qed

lemma add_ops_loop_Inr:
  "add_ops_loop nsb self specs n = Inr n' \<Longrightarrow> \<forall>sp\<in>set specs. accepted (snd sp) \<Longrightarrow>
   map kind_of (ops n') = map kind_of (ops n) @ concat (map (\<lambda>sp. calls_of (snd sp)) specs)"
proof (induction specs arbitrary: n)
  case Nil
  then show ?case by simp
next
  case (Cons sp specs)
  obtain field fs where sp: "sp = (field, fs)" by (cases sp)
  from Cons.prems(1) sp obtain n1 where
    n1: "add_ops_for nsb self field fs n = Inr n1" and
    rest: "add_ops_loop nsb self specs n1 = Inr n'"
    by (auto split: sum.splits)
  from Cons.prems(2) sp have "accepted fs" by simp
  from add_ops_for_Inr [OF n1 this] Cons.IH [OF rest] Cons.prems(2) sp
  show ?case by simp
qed

lemma add_ops_loop_total:
  "\<forall>sp\<in>set specs. \<forall>n. \<exists>n'. add_ops_for nsb self (fst sp) (snd sp) n = Inr n' \<Longrightarrow>
   \<exists>n'. add_ops_loop nsb self specs n = Inr n'"
proof (induction specs arbitrary: n)
  case Nil
  then show ?case by simp
next
  case (Cons sp specs)
  obtain field fs where sp: "sp = (field, fs)" by (cases sp)
  with Cons.prems obtain n1 where n1: "add_ops_for nsb self field fs n = Inr n1"
    by fastforce
  from Cons.prems have
    "\<forall>sp\<in>set specs. \<forall>n. \<exists>n'. add_ops_for nsb self (fst sp) (snd sp) n = Inr n'"
    by simp
  from Cons.IH [OF this, of n1] n1 sp show ?case by simp
qed

text \<open>
  C6, as stated, fails: for an entry with the tag \<open>'FLOAT'\<close> the only operator that
  \<open>add_ops\<close> adds is \<open>SparseToDenseMask\<close>; there is no range computation and no aliasing.
\<close>

theorem add_ops_float_counterexample:
  "init numbered sample_model sample_record
     [(''a'', \<lparr>feature_type = ''FLOAT'', feature_names = [''x'', ''y''], feature_ids = [1, 2]\<rparr>)] 0
     = Inr (float_layer, 1) \<and>
   add_ops numbered float_layer \<lparr>ops = [], names = 0\<rparr>
     = Inr \<lparr>ops = [SparseToDenseMask [''a.keys'', ''a.values'', ''zero'', ''a.lengths'']
                      [''a_output''] [1, 2]],
            names = 0\<rparr>"
  by (simp add: init_def output_for_def numbered_def new_struct_def nested_def struct1_def
      getitem_def global_constant_def sample_model_def float_layer_def add_ops_def
      add_ops_for_def output_blob_def emit_def sample_record_def)

text \<open>
  C6, amended. For a constructed layer, the operators that \<open>add_ops\<close> adds to the net are,
  entry by entry in the order of \<open>input_specs\<close>: for \<open>'FLOAT'\<close> one \<open>SparseToDenseMask\<close>;
  for \<open>'ID_LIST'\<close> a \<open>LengthsToRanges\<close>, a \<open>SparseToDenseMask\<close> and an \<open>Alias\<close>; for
  \<open>'ID_SCORE_LIST'\<close> a \<open>LengthsToRanges\<close>, a \<open>SparseToDenseMask\<close> and two \<open>Alias\<close>. Every
  \<open>SparseToDenseMask\<close> gets the \<open>feature_ids\<close> of its entry as its \<open>mask\<close>. With distinct
  field names \<open>add_ops\<close> raises no error.
\<close>

theorem add_ops_operators:
  assumes "init gnbr model inp specs st = Inr (self, st')"
  shows "(\<forall>n'. add_ops nsb self n = Inr n' \<longrightarrow>
            map kind_of (ops n') = map kind_of (ops n) @
              concat (map (\<lambda>sp.
                if feature_type (snd sp) = ''FLOAT''
                  then [MaskApplication (feature_ids (snd sp))]
                else if feature_type (snd sp) = ''ID_LIST''
                  then [RangeComputation, MaskApplication (feature_ids (snd sp)), Aliasing]
                else [RangeComputation, MaskApplication (feature_ids (snd sp)), Aliasing,
                      Aliasing]) specs)) \<and>
         (distinct (map fst specs) \<longrightarrow> (\<exists>n'. add_ops nsb self n = Inr n'))"
proof (intro conjI allI impI)
  fix n' assume a: "add_ops nsb self n = Inr n'"
  have s: "input_specs self = specs"
    using init_Inr(2) [OF assms] .
  have "\<forall>sp\<in>set specs. accepted (snd sp)"
    using init_Inr_accepted [OF assms] by blast
  from add_ops_loop_Inr [OF _ this, of nsb self n n'] a s
  have "map kind_of (ops n') =
      map kind_of (ops n) @ concat (map (\<lambda>sp. calls_of (snd sp)) specs)"
    by (simp add: add_ops_def)
  then show "map kind_of (ops n') = map kind_of (ops n) @
              concat (map (\<lambda>sp.
                if feature_type (snd sp) = ''FLOAT''
                  then [MaskApplication (feature_ids (snd sp))]
                else if feature_type (snd sp) = ''ID_LIST''
                  then [RangeComputation, MaskApplication (feature_ids (snd sp)), Aliasing]
                else [RangeComputation, MaskApplication (feature_ids (snd sp)), Aliasing,
                      Aliasing]) specs)"
    by (simp only: calls_of_def)
next
  assume d: "distinct (map fst specs)"
  have s: "input_specs self = specs"
    using init_Inr(2) [OF assms] .
  have "\<forall>sp\<in>set specs. \<exists>n'. add_ops_for nsb self (fst sp) (snd sp) n = Inr n'" for n
  proof
    fix sp assume "sp \<in> set specs"
    then obtain i where i: "i < length specs" "specs ! i = sp"
      by (auto simp: in_set_conv_nth)
    from add_ops_for_total [OF assms i(1), of nsb n] i(2)
    show "\<exists>n'. add_ops_for nsb self (fst sp) (snd sp) n = Inr n'" by simp
  qed
  then have "\<forall>sp\<in>set specs. \<forall>n. \<exists>n'. add_ops_for nsb self (fst sp) (snd sp) n = Inr n'"
    by blast
  from add_ops_loop_total [OF this, of n] s
  show "\<exists>n'. add_ops nsb self n = Inr n'"
    by (simp add: add_ops_def)
qed

theorem add_ops_operators_witness:
  "\<exists>self st' n'. init numbered sample_model sample_record sample_specs 0 = Inr (self, st') \<and>
     add_ops numbered self \<lparr>ops = [], names = 0\<rparr> = Inr n' \<and>
     map kind_of (ops n') =
       [MaskApplication [1, 2],
        RangeComputation, MaskApplication [7], Aliasing,
        RangeComputation, MaskApplication [3, 4, 5], Aliasing, Aliasing]"
proof -
  from sample_layer obtain self st' where
    i: "init numbered sample_model sample_record sample_specs 0 = Inr (self, st')"
    by blast
  have d: "distinct (map fst sample_specs)"
    by (simp add: sample_specs_def)
  from add_ops_operators [OF i, of numbered "\<lparr>ops = [], names = 0\<rparr>"] d
  obtain n' where n': "add_ops numbered self \<lparr>ops = [], names = 0\<rparr> = Inr n'"
    by blast
  from add_ops_operators [OF i, of numbered "\<lparr>ops = [], names = 0\<rparr>"] n'
  have k: "map kind_of (ops n') =
      concat (map (\<lambda>sp.
                if feature_type (snd sp) = ''FLOAT''
                  then [MaskApplication (feature_ids (snd sp))]
                else if feature_type (snd sp) = ''ID_LIST''
                  then [RangeComputation, MaskApplication (feature_ids (snd sp)), Aliasing]
                else [RangeComputation, MaskApplication (feature_ids (snd sp)), Aliasing,
                      Aliasing]) sample_specs)"
    by simp
  have "concat (map (\<lambda>sp.
                if feature_type (snd sp) = ''FLOAT''
                  then [MaskApplication (feature_ids (snd sp))]
                else if feature_type (snd sp) = ''ID_LIST''
                  then [RangeComputation, MaskApplication (feature_ids (snd sp)), Aliasing]
                else [RangeComputation, MaskApplication (feature_ids (snd sp)), Aliasing,
                      Aliasing]) sample_specs) =
       [MaskApplication [1, 2],
        RangeComputation, MaskApplication [7], Aliasing,
        RangeComputation, MaskApplication [3, 4, 5], Aliasing, Aliasing]"
    by (simp add: sample_specs_def)
  with k have k': "map kind_of (ops n') =
       [MaskApplication [1, 2],
        RangeComputation, MaskApplication [7], Aliasing,
        RangeComputation, MaskApplication [3, 4, 5], Aliasing, Aliasing]"
    by (rule trans)
  show ?thesis
  proof (intro exI conjI)
    show "init numbered sample_model sample_record sample_specs 0 = Inr (self, st')"
      by (rule i)
    show "add_ops numbered self \<lparr>ops = [], names = 0\<rparr> = Inr n'"
      by (rule n')
    show "map kind_of (ops n') =
       [MaskApplication [1, 2],
        RangeComputation, MaskApplication [7], Aliasing,
        RangeComputation, MaskApplication [3, 4, 5], Aliasing, Aliasing]"
      by (rule k')
  qed
qed

end
